theory Spec2Isabelle
  imports Main
begin

section \<open>Gallery upload lifecycle of the admin gallery managers\<close>

text \<open>
  The development embeds the handlers of \<^verbatim>\<open>ProjectGalleryManager\<close> (the component
  source carried in \<^verbatim>\<open>src/replit.md\<close>) and of \<^verbatim>\<open>BlogGalleryManager.tsx\<close>.
  A handler is a function of the values its closure reads (component state, hook data,
  local storage) to the values it writes and the remote requests it issues, in the
  order it issues them. JavaScript numbers that hold ids, indices and display orders
  are \<open>int\<close>; strings are \<open>string\<close>; \<^verbatim>\<open>null\<close>/\<^verbatim>\<open>undefined\<close> is \<open>None\<close>.
\<close>

subsection \<open>Data model\<close>

text \<open>
  \<^verbatim>\<open>type PendingImage = { url: string; caption: string; displayOrder: number }\<close>
\<close>

record PendingImage =
  url :: string
  caption :: string
  displayOrder :: int

text \<open>
  A persisted gallery row (\<^verbatim>\<open>ProjectGallery\<close>, \<^verbatim>\<open>BlogGallery\<close> of the shared schema),
  with the fields the handlers read: \<^verbatim>\<open>id\<close>, the owner's id, \<^verbatim>\<open>imageUrl\<close>,
  \<^verbatim>\<open>caption\<close> and the nullable \<^verbatim>\<open>displayOrder\<close>.
\<close>

record GalleryImage =
  img_id :: int
  img_owner :: int
  imageUrl :: string
  img_caption :: string
  img_displayOrder :: "int option"

text \<open>
  The remote requests a handler can issue. \<^verbatim>\<open>updateProjectGalleryImage(id, {displayOrder})\<close>
  is \<open>UpdateOrder\<close>; \<^verbatim>\<open>cleanupUploads(sessionId, preserveUrls)\<close> is \<open>CleanupUploads\<close>;
  \<^verbatim>\<open>commitUploads(sessionId, fileUrls)\<close> is \<open>CommitUploads\<close>; the direct
  \<^verbatim>\<open>POST /api/files/cleanup {fileUrl, preserveUrls}\<close> is \<open>FileCleanup\<close>;
  \<^verbatim>\<open>addProjectGalleryImage({projectId, imageUrl, caption, displayOrder})\<close> is
  \<open>AddGalleryImage\<close>; the \<^verbatim>\<open>GET /api/projects/{id}/gallery\<close> is \<open>GetGallery\<close>.
\<close>

datatype call =
    UpdateOrder int int
  | CleanupUploads string "string list"
  | CommitUploads string "string list"
  | FileCleanup string "string list"
  | AddGalleryImage int string string int
  | GetGallery int

subsection \<open>Order manager\<close>

text \<open>\<^verbatim>\<open>x || 0\<close> on a nullable number.\<close>

definition or0 :: "int option \<Rightarrow> int" where
  "or0 d = (case d of None \<Rightarrow> 0 | Some n \<Rightarrow> n)"

text \<open>
  \<^verbatim>\<open>handleUpdateImageOrder(id, displayOrder)\<close> returns at once on \<^verbatim>\<open>null\<close> and
  otherwise sends one update of the row's display order. Its result here is the request
  it sends; its bookkeeping of the ids under modification and its notifications, which no
  other handler of this development reads, are left out.
\<close>

definition handleUpdateImageOrder :: "int \<Rightarrow> int option \<Rightarrow> call list" where
  "handleUpdateImageOrder i d = (case d of None \<Rightarrow> [] | Some n \<Rightarrow> [UpdateOrder i n])"

text \<open>
  \<^verbatim>\<open>img.displayOrder !== null && img.displayOrder < currentOrder\<close> and its mirror image.
\<close>

definition order_below :: "int \<Rightarrow> GalleryImage \<Rightarrow> bool" where
  "order_below cur img = (case img_displayOrder img of None \<Rightarrow> False | Some d \<Rightarrow> d < cur)"

definition order_above :: "int \<Rightarrow> GalleryImage \<Rightarrow> bool" where
  "order_above cur img = (case img_displayOrder img of None \<Rightarrow> False | Some d \<Rightarrow> d > cur)"

text \<open>
  \<^verbatim>\<open>moveImageOrderUp(id, currentOrder)\<close>: nothing without a gallery or an order; else the
  rows below the current order, sorted (stably, as \<^verbatim>\<open>Array.prototype.sort\<close> is)
  in descending order of \<^verbatim>\<open>displayOrder || 0\<close>; the first of them is the target, and two
  updates are sent without awaiting either.
\<close>

definition moveImageOrderUp :: "GalleryImage list option \<Rightarrow> int \<Rightarrow> int option \<Rightarrow> call list" where
  "moveImageOrderUp projectGallery i currentOrder =
     (case projectGallery of
        None \<Rightarrow> []
      | Some gallery \<Rightarrow>
         (case currentOrder of
            None \<Rightarrow> []
          | Some cur \<Rightarrow>
             (case sort_key (\<lambda>g. - or0 (img_displayOrder g)) (filter (order_below cur) gallery) of
                [] \<Rightarrow> []
              | targetImage # _ \<Rightarrow>
                  handleUpdateImageOrder i (Some (or0 (img_displayOrder targetImage)))
                  @ handleUpdateImageOrder (img_id targetImage) (Some cur))))"

definition moveImageOrderDown :: "GalleryImage list option \<Rightarrow> int \<Rightarrow> int option \<Rightarrow> call list" where
  "moveImageOrderDown projectGallery i currentOrder =
     (case projectGallery of
        None \<Rightarrow> []
      | Some gallery \<Rightarrow>
         (case currentOrder of
            None \<Rightarrow> []
          | Some cur \<Rightarrow>
             (case sort_key (\<lambda>g. or0 (img_displayOrder g)) (filter (order_above cur) gallery) of
                [] \<Rightarrow> []
              | targetImage # _ \<Rightarrow>
                  handleUpdateImageOrder i (Some (or0 (img_displayOrder targetImage)))
                  @ handleUpdateImageOrder (img_id targetImage) (Some cur))))"

text \<open>
  Modelled from the spec: the remote persistence API is not part of the sources; its
  \<^verbatim>\<open>PATCH /gallery/{id}\<close> is a partial update of the row with that id, here of its
  display order. Requests other than an order update leave the display orders alone.
\<close>

definition patch_order :: "int \<Rightarrow> int \<Rightarrow> GalleryImage list \<Rightarrow> GalleryImage list" where
  "patch_order i d rs =
     map (\<lambda>g. if img_id g = i then g\<lparr>img_displayOrder := Some d\<rparr> else g) rs"

fun apply_update :: "call \<Rightarrow> GalleryImage list \<Rightarrow> GalleryImage list" where
  "apply_update (UpdateOrder i d) rs = patch_order i d rs"
| "apply_update _ rs = rs"

definition apply_updates :: "call list \<Rightarrow> GalleryImage list \<Rightarrow> GalleryImage list" where
  "apply_updates cs rs = fold apply_update cs rs"

text \<open>The display order the gallery holds for the row with a given id.\<close>

definition order_of :: "GalleryImage list \<Rightarrow> int \<Rightarrow> int option" where
  "order_of rs i =
     (case filter (\<lambda>g. img_id g = i) rs of [] \<Rightarrow> None | g # _ \<Rightarrow> img_displayOrder g)"

subsection \<open>Strings and notifications\<close>

text \<open>Decimal rendering of a non-negative number inside a template literal.\<close>

definition digit :: "nat \<Rightarrow> char" where
  "digit d = ''0123456789'' ! d"

fun dec :: "nat \<Rightarrow> string" where
  "dec n = (if n < 10 then [digit n] else dec (n div 10) @ [digit (n mod 10)])"

declare dec.simps [simp del]

text \<open>
  \<^verbatim>\<open>toast({ title, description, variant })\<close>; \<open>variant\<close> is \<open>None\<close> where the call
  gives none.
\<close>

record toast =
  title :: string
  description :: string
  variant :: "string option"

subsection \<open>Project gallery manager: component state\<close>

text \<open>
  What the local-storage entry under \<^verbatim>\<open>pendingImages_project_${projectId}\<close> holds: the
  serialised pending list (\<^verbatim>\<open>JSON.stringify\<close> of it), or a string that
  \<^verbatim>\<open>JSON.parse\<close> rejects.
\<close>

datatype stored = Json "PendingImage list" | Garbage

text \<open>
  The values the handlers of one \<^verbatim>\<open>ProjectGalleryManager\<close> read and write:
  the props \<^verbatim>\<open>projectId\<close> and \<^verbatim>\<open>isNewProject\<close>, the state cells, the hook data
  \<^verbatim>\<open>projectGallery\<close> (\<open>None\<close> while it is undefined) and \<^verbatim>\<open>uploadSessions\<close> (a
  \<^verbatim>\<open>Set\<close>, listed in insertion order), whether the hook hands out
  \<^verbatim>\<open>commitUploads\<close> and \<^verbatim>\<open>cleanupUploads\<close>, the local-storage entry of this project
  (\<open>mirror\<close>), and the notifications shown so far.
\<close>

record manager =
  projectId :: int
  dynamicProjectId :: int
  isNewProject :: bool
  projectGallery :: "GalleryImage list option"
  pendingImages :: "PendingImage list"
  uploadSessions :: "string list"
  has_commitUploads :: bool
  has_cleanupUploads :: bool
  showMaxImagesWarning :: bool
  isUploading :: bool
  mirror :: "stored option"
  toasts :: "toast list"

definition MAX_GALLERY_IMAGES :: int where
  "MAX_GALLERY_IMAGES = 10"

text \<open>\<^verbatim>\<open>(projectGallery?.length || 0) + pendingImages.length\<close>\<close>

definition currentImageCount :: "manager \<Rightarrow> int" where
  "currentImageCount m =
     (case projectGallery m of None \<Rightarrow> 0 | Some g \<Rightarrow> int (length g)) + int (length (pendingImages m))"

subsection \<open>Pending item store\<close>

text \<open>\<^verbatim>\<open>Math.max(...xs)\<close> on a list that is not empty, given as its head and tail.\<close>

definition math_max :: "int \<Rightarrow> int list \<Rightarrow> int" where
  "math_max x xs = fold max xs x"

text \<open>
  \<^verbatim>\<open>getNextOrderValue\<close>: with a gallery that is not empty, one more than the greatest
  persisted order (\<^verbatim>\<open>null\<close> counting as 0); else, with pending images, one more than
  the greatest pending order; else 1.
\<close>

definition getNextOrderValue :: "manager \<Rightarrow> int" where
  "getNextOrderValue m =
     (case projectGallery m of
        Some (g # gs) \<Rightarrow> math_max (or0 (img_displayOrder g)) (map (\<lambda>image. or0 (img_displayOrder image)) gs) + 1
      | _ \<Rightarrow>
         (case pendingImages m of
            p # ps \<Rightarrow> math_max (displayOrder p) (map displayOrder ps) + 1
          | [] \<Rightarrow> 1))"

text \<open>
  \<^verbatim>\<open>urls.map((url, idx) => ({ url, caption: `Project image ${idx + 1}`,
  displayOrder: nextOrder + idx }))\<close>
\<close>

definition mkPending :: "int \<Rightarrow> string list \<Rightarrow> PendingImage list" where
  "mkPending nextOrder urls =
     map (\<lambda>(idx, u). \<lparr>url = u, caption = ''Project image '' @ dec (idx + 1),
                        displayOrder = nextOrder + int idx\<rparr>)
         (enumerate 0 urls)"

text \<open>
  \<^verbatim>\<open>setPendingImages(prev => { const updated = [...prev, ...newPendingImages];
  localStorage.setItem(key, JSON.stringify(updated)); return updated; })\<close>
\<close>

definition appendPending :: "PendingImage list \<Rightarrow> manager \<Rightarrow> manager" where
  "appendPending new m =
     m\<lparr>pendingImages := pendingImages m @ new, mirror := Some (Json (pendingImages m @ new))\<rparr>"

definition notify :: "toast \<Rightarrow> manager \<Rightarrow> manager" where
  "notify t m = m\<lparr>toasts := toasts m @ [t]\<rparr>"

text \<open>
  \<^verbatim>\<open>handleFileUpload(urls)\<close>, the argument already an array. Over the limit, the first
  \<^verbatim>\<open>allowedToAdd\<close> URLs are taken when that number is positive and the notification
  names it; when it is zero the warning flag is raised. Within the limit all are taken.
\<close>

definition handleFileUpload :: "manager \<Rightarrow> string list \<Rightarrow> manager" where
  "handleFileUpload m urls =
     (let totalAfterAdd = currentImageCount m + int (length urls) in
      if totalAfterAdd > MAX_GALLERY_IMAGES then
        (let allowedToAdd = max 0 (MAX_GALLERY_IMAGES - currentImageCount m) in
         if allowedToAdd > 0 then
           (let limitedUrls = take (nat allowedToAdd) urls;
                nextOrder = getNextOrderValue m;
                newPendingImages = mkPending nextOrder limitedUrls
            in notify \<lparr>title = ''Maximum images reached'',
                       description = ''Added '' @ dec (nat allowedToAdd)
                          @ '' image(s). Projects can have a maximum of ''
                          @ dec (nat MAX_GALLERY_IMAGES) @ '' images.'',
                       variant = Some ''default''\<rparr>
                 (appendPending newPendingImages m))
         else
           notify \<lparr>title = ''Maximum images reached'',
                   description = ''Projects can have a maximum of '' @ dec (nat MAX_GALLERY_IMAGES)
                          @ '' images. Delete some images to add more.'',
                   variant = Some ''destructive''\<rparr>
             (m\<lparr>showMaxImagesWarning := True\<rparr>))
      else
        (let nextOrder = getNextOrderValue m;
             newPendingImages = mkPending nextOrder urls
         in notify \<lparr>title = ''Images added'',
                    description = dec (length urls) @ '' image''
                       @ (if length urls > 1 then ''s'' else []) @ '' ready to be saved.'',
                    variant = None\<rparr>
              (appendPending newPendingImages m)))"

text \<open>
  JavaScript array access and \<^verbatim>\<open>splice(index, 1)\<close> at an integer index: a read out of
  range is \<^verbatim>\<open>undefined\<close>; \<^verbatim>\<open>splice\<close> counts a negative start from the end and clamps
  the start to the array.
\<close>

definition at_index :: "'a list \<Rightarrow> int \<Rightarrow> 'a option" where
  "at_index xs i = (if 0 \<le> i \<and> i < int (length xs) then Some (xs ! nat i) else None)"

definition splice1 :: "int \<Rightarrow> 'a list \<Rightarrow> 'a list" where
  "splice1 i xs =
     (let n = int (length xs);
          start = (if i < 0 then max (n + i) 0 else min i n)
      in take (nat start) xs @ drop (nat start + 1) xs)"

text \<open>\<^verbatim>\<open>xs.filter((_, i) => i !== index)\<close>\<close>

definition others :: "int \<Rightarrow> 'a list \<Rightarrow> 'a list" where
  "others index xs = map snd (filter (\<lambda>(i, _). int i \<noteq> index) (enumerate 0 xs))"

text \<open>
  \<^verbatim>\<open>handleDeletePendingImage(index)\<close>: the entry leaves the pending state; for an entry
  with a URL, nothing more happens when the gallery holds that URL, and otherwise one
  direct cleanup request goes out for the file, preserving the gallery's URLs and the
  URLs of the pending entries at the other indices. The warning flag is lowered on every
  path. The result is the new state and the requests issued.
\<close>

definition handleDeletePendingImage :: "manager \<Rightarrow> int \<Rightarrow> manager \<times> call list" where
  "handleDeletePendingImage m index =
     (let pendingImage = at_index (pendingImages m) index;
          m' = m\<lparr>pendingImages := splice1 index (pendingImages m), showMaxImagesWarning := False\<rparr>
      in case pendingImage of
           None \<Rightarrow> (m', [])
         | Some p \<Rightarrow>
            if url p = [] then (m', [])
            else
              (let existingImageUrls = (case projectGallery m of
                                          Some g \<Rightarrow> map imageUrl g | None \<Rightarrow> [])
               in if url p \<in> set existingImageUrls then (m', [])
                  else
                    (let otherPendingUrls = map url (others index (pendingImages m))
                     in (m', [FileCleanup (url p) (existingImageUrls @ otherPendingUrls)]))))"

subsection \<open>Cleanup coordinator\<close>

text \<open>\<^verbatim>\<open>xs.filter(Boolean)\<close> on strings keeps the ones that are not empty.\<close>

definition filter_Boolean :: "string list \<Rightarrow> string list" where
  "filter_Boolean xs = filter (\<lambda>u. u \<noteq> []) xs"


subsection \<open>Blog gallery manager\<close>

text \<open>
  The values one render of \<^verbatim>\<open>BlogGalleryManager\<close> holds, and so the values every
  closure created in that render reads: the state cells, and the hook data
  \<^verbatim>\<open>galleryImages\<close> (\<open>None\<close> when it is not an array) and \<^verbatim>\<open>cleanupUploads\<close>. React
  compares effect dependencies with \<^verbatim>\<open>Object.is\<close>: strings and booleans by value, the
  array \<^verbatim>\<open>uploadedFiles\<close> and the function \<^verbatim>\<open>cleanupUploads\<close> by identity, which
  \<open>uploadedFilesRef\<close> and \<open>cleanupUploadsRef\<close> stand for.
\<close>

record blog =
  uploadSession :: string
  isCommitted :: bool
  uploadedFiles :: "string list"
  uploadedFilesRef :: nat
  galleryImages :: "GalleryImage list option"
  cleanupUploadsRef :: nat
  isAddDialogOpen :: bool

text \<open>
  \<^verbatim>\<open>cleanupUncommittedFiles\<close>, on the values of the render whose closure runs: the
  request it issues before it awaits the answer. When the answer is \<^verbatim>\<open>true\<close> it goes on
  to \<^verbatim>\<open>setUploadedFiles([])\<close>, which is the event \<open>CleanupSucceeded\<close> below.
\<close>

definition cleanupUncommittedFiles :: "blog \<Rightarrow> call list" where
  "cleanupUncommittedFiles b =
     (if uploadSession b \<noteq> [] \<and> \<not> isCommitted b \<and> uploadedFiles b \<noteq> [] then
        (let existingImageUrls = (case galleryImages b of
                                    Some g \<Rightarrow> filter_Boolean (map imageUrl g) | None \<Rightarrow> [])
         in [CleanupUploads (uploadSession b) existingImageUrls])
      else [])"

text \<open>
  The body of the effect that watches the dialog, on the values of the render it runs
  after.
\<close>

definition dialogCloseEffect :: "blog \<Rightarrow> call list" where
  "dialogCloseEffect b =
     (if \<not> isAddDialogOpen b \<and> uploadSession b \<noteq> [] \<and> \<not> isCommitted b \<and> uploadedFiles b \<noteq> []
      then cleanupUncommittedFiles b
      else [])"

text \<open>
  The dependency arrays of the two effects:
  \<^verbatim>\<open>[uploadSession, isCommitted, uploadedFiles, cleanupUploads]\<close> for the effect whose
  cleanup function calls \<^verbatim>\<open>cleanupUncommittedFiles\<close>, and the same with
  \<^verbatim>\<open>isAddDialogOpen\<close> in front for the effect that watches the dialog.
\<close>

definition unmountDeps :: "blog \<Rightarrow> string \<times> bool \<times> nat \<times> nat" where
  "unmountDeps b = (uploadSession b, isCommitted b, uploadedFilesRef b, cleanupUploadsRef b)"

definition dialogDeps :: "blog \<Rightarrow> bool \<times> string \<times> bool \<times> nat \<times> nat" where
  "dialogDeps b =
     (isAddDialogOpen b, uploadSession b, isCommitted b, uploadedFilesRef b, cleanupUploadsRef b)"

text \<open>
  The mounted component: the values of the last render (\<open>rendered\<close>), the values of the
  render in which the first effect last ran, which its cleanup function has closed over
  (\<open>captured\<close>), the values of the render whose \<^verbatim>\<open>handleFileUploadComplete\<close> is running
  (\<open>handlerView\<close>), and whether the component is still mounted.
\<close>

record blogComponent =
  rendered :: blog
  captured :: blog
  handlerView :: blog
  mounted :: bool

text \<open>
  React's effect phase. At mount every effect body runs. After a later render, each
  effect with a changed dependency first has its previous cleanup function run, with
  the values that function closed over, and then its body run with the values of the
  new render; cleanup functions run before bodies. At unmount the cleanup function of
  the first effect runs, again with the values it closed over. The second effect
  returns no cleanup function.
\<close>

definition blogMount :: "blog \<Rightarrow> blogComponent \<times> call list" where
  "blogMount b =
     (\<lparr>rendered = b, captured = b, handlerView = b, mounted = True\<rparr>, dialogCloseEffect b)"

definition blogRender :: "blog \<Rightarrow> blogComponent \<Rightarrow> blogComponent \<times> call list" where
  "blogRender b k =
     (let unmountChanged = (unmountDeps b \<noteq> unmountDeps (rendered k));
          dialogChanged = (dialogDeps b \<noteq> dialogDeps (rendered k))
      in (k\<lparr>rendered := b, captured := (if unmountChanged then b else captured k)\<rparr>,
          (if unmountChanged then cleanupUncommittedFiles (captured k) else [])
          @ (if dialogChanged then dialogCloseEffect b else [])))"

definition blogUnmount :: "blogComponent \<Rightarrow> call list" where
  "blogUnmount k = cleanupUncommittedFiles (captured k)"

text \<open>
  What happens to a mounted component. \<open>HookData\<close>: the hook hands over a new gallery
  or a new \<^verbatim>\<open>cleanupUploads\<close>. \<open>SetDialog\<close>: the dialog is opened or closed.
  \<open>UploadStarted\<close>: \<^verbatim>\<open>handleFileUploadComplete(fileUrl, sessionId)\<close> runs up to its first
  \<^verbatim>\<open>await\<close> (a single string is the list of that string): it sets the session when
  one is given and not empty, lowers the committed flag and, for a list that is not
  empty, stores it as the uploaded files; for an empty list nothing is awaited and the
  dialog is closed at once. \<open>UploadCommitted\<close>: the awaited \<^verbatim>\<open>addGalleryImage\<close> calls and
  the \<^verbatim>\<open>commitUploads\<close> call have resolved, and the handler raises the committed flag and
  closes the dialog, in one render (React 18 batches the updates). \<open>UploadFailed\<close>: an
  awaited call was rejected, and the handler's \<^verbatim>\<open>catch\<close> calls
  \<^verbatim>\<open>cleanupUncommittedFiles\<close> of its own render. \<open>CleanupSucceeded\<close>: a cleanup request
  was answered \<^verbatim>\<open>true\<close> and \<^verbatim>\<open>setUploadedFiles([])\<close> runs. \<open>Unmounted\<close>: the component
  unmounts; state updates after that do nothing.
\<close>

datatype blogEvent =
    HookData "GalleryImage list option" nat
  | SetDialog bool
  | UploadStarted "string list" "string option"
  | UploadCommitted
  | UploadFailed
  | CleanupSucceeded
  | Unmounted

fun blogStep :: "blogEvent \<Rightarrow> blogComponent \<Rightarrow> blogComponent \<times> call list" where
  "blogStep UploadFailed k = (k, cleanupUncommittedFiles (handlerView k))"
| "blogStep Unmounted k =
     (if mounted k then (k\<lparr>mounted := False\<rparr>, blogUnmount k) else (k, []))"
| "blogStep (HookData g f) k =
     (if mounted k then blogRender ((rendered k)\<lparr>galleryImages := g, cleanupUploadsRef := f\<rparr>) k
      else (k, []))"
| "blogStep (SetDialog b) k =
     (if mounted k then blogRender ((rendered k)\<lparr>isAddDialogOpen := b\<rparr>) k else (k, []))"
| "blogStep (UploadStarted fileUrl sessionId) k =
     (if mounted k then
        (let s = (case sessionId of
                    None \<Rightarrow> uploadSession (rendered k)
                  | Some i \<Rightarrow> if i \<noteq> [] then i else uploadSession (rendered k));
             b = (rendered k)\<lparr>uploadSession := s, isCommitted := False\<rparr>;
             b' = (if fileUrl \<noteq> []
                   then b\<lparr>uploadedFiles := fileUrl, uploadedFilesRef := Suc (uploadedFilesRef b)\<rparr>
                   else b\<lparr>isAddDialogOpen := False\<rparr>)
         in blogRender b' (k\<lparr>handlerView := rendered k\<rparr>))
      else (k\<lparr>handlerView := rendered k\<rparr>, []))"
| "blogStep UploadCommitted k =
     (if mounted k
      then blogRender ((rendered k)\<lparr>isCommitted := True, isAddDialogOpen := False\<rparr>) k
      else (k, []))"
| "blogStep CleanupSucceeded k =
     (if mounted k
      then blogRender ((rendered k)\<lparr>uploadedFiles := [],
                                      uploadedFilesRef := Suc (uploadedFilesRef (rendered k))\<rparr>) k
      else (k, []))"

text \<open>A sequence of events, with the requests issued in order.\<close>

fun blogRun :: "blogEvent list \<Rightarrow> blogComponent \<Rightarrow> blogComponent \<times> call list" where
  "blogRun [] k = (k, [])"
| "blogRun (e # es) k =
     (let (k1, cs1) = blogStep e k;
          (k2, cs2) = blogRun es k1
      in (k2, cs1 @ cs2))"

text \<open>
  The state cells as \<^verbatim>\<open>useState\<close> initialises them, with the hook data of the first
  render.
\<close>

definition blogInitial :: "GalleryImage list option \<Rightarrow> blog" where
  "blogInitial g =
     \<lparr>uploadSession = [], isCommitted = False, uploadedFiles = [], uploadedFilesRef = 0,
      galleryImages = g, cleanupUploadsRef = 0, isAddDialogOpen = False\<rparr>"

subsection \<open>Remote collaborators of save\<close>

text \<open>
  Modelled from the spec: the remote persistence API and the storage provider's commit
  are not part of the sources. Following the spec's external interfaces, the gallery
  \<^verbatim>\<open>GET\<close> answers with the owner's rows, the \<^verbatim>\<open>POST\<close> appends a row that carries the
  owner, image URL, caption and display order of the request under a fresh id, and a
  commit changes no row. Every call can fail with a transport or status error: \<open>faults\<close>
  schedules the outcomes of the coming calls (\<open>True\<close>: the call is rejected), one entry
  per call, and calls beyond the schedule succeed. \<open>received\<close> lists the requests that
  reached the remote side, oldest first.
\<close>

datatype error = Rejected call

record remote =
  rows :: "GalleryImage list"
  next_id :: int
  faults :: "bool list"
  received :: "call list"

definition fails_next :: "remote \<Rightarrow> bool" where
  "fails_next r = (case faults r of [] \<Rightarrow> False | f # _ \<Rightarrow> f)"

definition receive :: "call \<Rightarrow> remote \<Rightarrow> remote" where
  "receive c r = r\<lparr>faults := tl (faults r), received := received r @ [c]\<rparr>"

definition api_get_gallery :: "int \<Rightarrow> remote \<Rightarrow> (error + GalleryImage list option) \<times> remote" where
  "api_get_gallery owner r =
     (if fails_next r then Inl (Rejected (GetGallery owner))
      else Inr (Some (filter (\<lambda>g. img_owner g = owner) (rows r))),
      receive (GetGallery owner) r)"

definition add_call :: "int \<Rightarrow> PendingImage \<Rightarrow> call" where
  "add_call owner p = AddGalleryImage owner (url p) (caption p) (displayOrder p)"

definition row_of :: "int \<Rightarrow> int \<Rightarrow> PendingImage \<Rightarrow> GalleryImage" where
  "row_of owner i p =
     \<lparr>img_id = i, img_owner = owner, imageUrl = url p, img_caption = caption p,
      img_displayOrder = Some (displayOrder p)\<rparr>"

definition api_add_image :: "int \<Rightarrow> PendingImage \<Rightarrow> remote \<Rightarrow> (error + GalleryImage) \<times> remote" where
  "api_add_image owner p r =
     (if fails_next r then (Inl (Rejected (add_call owner p)), receive (add_call owner p) r)
      else (Inr (row_of owner (next_id r) p),
            (receive (add_call owner p) r)
              \<lparr>rows := rows r @ [row_of owner (next_id r) p], next_id := next_id r + 1\<rparr>))"

definition api_commit :: "string \<Rightarrow> string list \<Rightarrow> remote \<Rightarrow> (error + unit) \<times> remote" where
  "api_commit sessionId fileUrls r =
     (if fails_next r then Inl (Rejected (CommitUploads sessionId fileUrls)) else Inr (),
      receive (CommitUploads sessionId fileUrls) r)"

subsection \<open>Reconciliation engine: save\<close>

text \<open>
  \<^verbatim>\<open>url.split('?')[0].trim()\<close>: the part before the first question mark, without
  leading and trailing white space. Strings are UTF-8 byte strings here, so the white
  space and line terminators that \<^verbatim>\<open>String.prototype.trim\<close> strips are the single
  bytes of U+0009 to U+000D and U+0020, the two bytes of U+00A0, and the three bytes of
  U+1680, U+2000 to U+200A, U+2028, U+2029, U+202F, U+205F, U+3000 and U+FEFF. The
  question mark is a single byte that occurs in no other character's encoding.
\<close>

definition is_space :: "char \<Rightarrow> bool" where
  "is_space c = (c \<in> set [CHR 0x09, CHR 0x0A, CHR 0x0B, CHR 0x0C, CHR 0x0D, CHR 0x20])"

definition is_space2 :: "char \<Rightarrow> char \<Rightarrow> bool" where
  "is_space2 a b = (a = CHR 0xC2 \<and> b = CHR 0xA0)"

definition is_space3 :: "char \<Rightarrow> char \<Rightarrow> char \<Rightarrow> bool" where
  "is_space3 a b c =
     ((a = CHR 0xE1 \<and> b = CHR 0x9A \<and> c = CHR 0x80)
      \<or> (a = CHR 0xE2 \<and> b = CHR 0x80
          \<and> c \<in> set [CHR 0x80, CHR 0x81, CHR 0x82, CHR 0x83, CHR 0x84, CHR 0x85, CHR 0x86,
                      CHR 0x87, CHR 0x88, CHR 0x89, CHR 0x8A, CHR 0xA8, CHR 0xA9, CHR 0xAF])
      \<or> (a = CHR 0xE2 \<and> b = CHR 0x81 \<and> c = CHR 0x9F)
      \<or> (a = CHR 0xE3 \<and> b = CHR 0x80 \<and> c = CHR 0x80)
      \<or> (a = CHR 0xEF \<and> b = CHR 0xBB \<and> c = CHR 0xBF))"

text \<open>
  Stripping white space from the front of a string, and from the front of a reversed
  string, where the bytes of a character come last byte first.
\<close>

fun trimStart :: "string \<Rightarrow> string" where
  "trimStart (a # b # c # s) =
     (if is_space a then trimStart (b # c # s)
      else if is_space2 a b then trimStart (c # s)
      else if is_space3 a b c then trimStart s
      else a # b # c # s)"
| "trimStart [a, b] =
     (if is_space a then trimStart [b] else if is_space2 a b then [] else [a, b])"
| "trimStart [a] = (if is_space a then [] else [a])"
| "trimStart [] = []"

fun trimStartRev :: "string \<Rightarrow> string" where
  "trimStartRev (a # b # c # s) =
     (if is_space a then trimStartRev (b # c # s)
      else if is_space2 b a then trimStartRev (c # s)
      else if is_space3 c b a then trimStartRev s
      else a # b # c # s)"
| "trimStartRev [a, b] =
     (if is_space a then trimStartRev [b] else if is_space2 b a then [] else [a, b])"
| "trimStartRev [a] = (if is_space a then [] else [a])"
| "trimStartRev [] = []"

definition trim :: "string \<Rightarrow> string" where
  "trim s = rev (trimStartRev (rev (trimStart s)))"

definition normalizeUrl :: "string \<Rightarrow> string" where
  "normalizeUrl u = trim (takeWhile (\<lambda>c. c \<noteq> CHR ''?'') u)"

text \<open>
  The pending images save works with (\<^verbatim>\<open>loadedPendingImages\<close>): the state's list, or
  the mirror's when the state has none, or the state's followed by the mirror's entries
  whose URL the state does not have. A mirror that does not parse changes nothing.
\<close>

definition loadPending :: "PendingImage list \<Rightarrow> stored option \<Rightarrow> PendingImage list" where
  "loadPending pending saved =
     (case saved of
        None \<Rightarrow> pending
      | Some Garbage \<Rightarrow> pending
      | Some (Json parsedImages) \<Rightarrow>
          if parsedImages \<noteq> [] \<and> pending = [] then parsedImages
          else if parsedImages \<noteq> [] \<and> pending \<noteq> [] then
            (let newImages = filter (\<lambda>img. url img \<notin> set (map url pending)) parsedImages
             in if newImages \<noteq> [] then pending @ newImages else pending)
          else pending)"

text \<open>
  \<^verbatim>\<open>existingImageUrls\<close>: the URLs of the fetched gallery when the answer is an array,
  else those of the hook's gallery, else none.
\<close>

definition existingUrlsOf :: "GalleryImage list option \<Rightarrow> manager \<Rightarrow> string list" where
  "existingUrlsOf currentGallery m =
     (case currentGallery of
        Some g \<Rightarrow> map imageUrl g
      | None \<Rightarrow> (case projectGallery m of Some g \<Rightarrow> map imageUrl g | None \<Rightarrow> []))"

text \<open>
  \<^verbatim>\<open>newPendingImages\<close>: the loaded entries whose normalised URL equals no normalised
  existing URL.
\<close>

definition newPendingImagesOf :: "PendingImage list \<Rightarrow> string list \<Rightarrow> PendingImage list" where
  "newPendingImagesOf loaded existingImageUrls =
     filter (\<lambda>pendingImg. normalizeUrl (url pendingImg) \<notin> set (map normalizeUrl existingImageUrls))
            loaded"

text \<open>
  The loop that persists: an entry without URL is passed over, the first rejected call
  ends the loop with its error.
\<close>

fun persistAll :: "int \<Rightarrow> PendingImage list \<Rightarrow> remote \<Rightarrow> (error + unit) \<times> remote" where
  "persistAll owner [] r = (Inr (), r)"
| "persistAll owner (p # ps) r =
     (if url p = [] then persistAll owner ps r
      else (case api_add_image owner p r of
              (Inl e, r') \<Rightarrow> (Inl e, r')
            | (Inr _, r') \<Rightarrow> persistAll owner ps r'))"

text \<open>The loop that commits each tracked session, awaiting each call.\<close>

fun commitAll :: "string list \<Rightarrow> string list \<Rightarrow> remote \<Rightarrow> (error + unit) \<times> remote" where
  "commitAll [] fileUrls r = (Inr (), r)"
| "commitAll (sessionId # sessions) fileUrls r =
     (case api_commit sessionId fileUrls r of
        (Inl e, r') \<Rightarrow> (Inl e, r')
      | (Inr _, r') \<Rightarrow> commitAll sessions fileUrls r')"

text \<open>\<^verbatim>\<open>if (commitUploads && uploadSessions.size > 0) { ... }\<close>\<close>

definition commitTracked :: "manager \<Rightarrow> string list \<Rightarrow> remote \<Rightarrow> (error + unit) \<times> remote" where
  "commitTracked m fileUrls r =
     (if has_commitUploads m \<and> uploadSessions m \<noteq> [] then commitAll (uploadSessions m) fileUrls r
      else (Inr (), r))"

text \<open>The \<^verbatim>\<open>catch\<close> and \<^verbatim>\<open>finally\<close> of save: a notification, and the error again.\<close>

definition saveFailed :: "error \<Rightarrow> manager \<Rightarrow> remote \<Rightarrow> (error + unit) \<times> manager \<times> remote" where
  "saveFailed e m r =
     (Inl e,
      (notify \<lparr>title = ''Save failed'',
               description = ''Failed to add some images to the gallery. Please try again.'',
               variant = Some ''destructive''\<rparr> m)\<lparr>isUploading := False\<rparr>,
      r)"

text \<open>
  \<^verbatim>\<open>saveGalleryImages\<close>: the result (\<open>Inl\<close> the error thrown to the caller), the
  component state and the remote side afterwards.
\<close>

definition saveGalleryImages :: "manager \<Rightarrow> remote \<Rightarrow> (error + unit) \<times> manager \<times> remote" where
  "saveGalleryImages m r =
     (let loadedPendingImages = loadPending (pendingImages m) (mirror m) in
      if loadedPendingImages = [] then (Inr (), m, r)
      else if isNewProject m then
        (case commitTracked m (map url loadedPendingImages) r of
           (Inl e, r1) \<Rightarrow> saveFailed e m r1
         | (Inr _, r1) \<Rightarrow>
             (Inr (),
              (notify \<lparr>title = ''Images saved'',
                       description = dec (length loadedPendingImages) @ '' image''
                         @ (if length loadedPendingImages > 1 then ''s'' else [])
                         @ '' will be added after project creation.'',
                       variant = None\<rparr> m)\<lparr>isUploading := False\<rparr>,
              r1))
      else
        (case api_get_gallery (dynamicProjectId m) r of
           (Inl e, r1) \<Rightarrow> saveFailed e m r1
         | (Inr currentGallery, r1) \<Rightarrow>
            (let existingImageUrls = existingUrlsOf currentGallery m;
                 newPendingImages = newPendingImagesOf loadedPendingImages existingImageUrls
             in case persistAll (dynamicProjectId m) newPendingImages r1 of
                  (Inl e, r2) \<Rightarrow> saveFailed e m r2
                | (Inr _, r2) \<Rightarrow>
                   (case commitTracked m (map url (pendingImages m) @ existingImageUrls) r2 of
                      (Inl e, r3) \<Rightarrow> saveFailed e m r3
                    | (Inr _, r3) \<Rightarrow>
                       (Inr (),
                        (notify \<lparr>title = ''Gallery updated'',
                                 description = dec (length newPendingImages) @ '' image''
                                   @ (if length newPendingImages > 1 \<or> length newPendingImages = 0
                                      then ''s'' else [])
                                   @ '' added to the gallery successfully.'',
                                 variant = None\<rparr> m)
                          \<lparr>pendingImages := [], mirror := None,
                           showMaxImagesWarning := False, isUploading := False\<rparr>,
                        r3)))))"

subsection \<open>Vocabulary of the properties\<close>

text \<open>The rows of a gallery that may be undefined.\<close>

definition gallery_rows :: "GalleryImage list option \<Rightarrow> GalleryImage list" where
  "gallery_rows g = (case g of None \<Rightarrow> [] | Some rs \<Rightarrow> rs)"


text \<open>
  The number of entries of a batch that fit under the maximum: the size of the batch or
  the room left, whichever is less, and none when the count has passed the maximum.
\<close>

definition admitted :: "manager \<Rightarrow> string list \<Rightarrow> nat" where
  "admitted m urls = min (length urls) (nat (MAX_GALLERY_IMAGES - currentImageCount m))"

text \<open>
  In the words of the spec: the path of a URL is the URL without its query string, that
  is, what stands before the first question mark.
\<close>

definition path_of :: "string \<Rightarrow> string" where
  "path_of u = takeWhile (\<lambda>c. c \<noteq> CHR ''?'') u"

text \<open>The entries the persist loop sends a request for: those with a URL.\<close>

definition with_url :: "PendingImage list \<Rightarrow> PendingImage list" where
  "with_url ps = filter (\<lambda>p. url p \<noteq> []) ps"

text \<open>The rows that consecutive successful persists of a list of entries create.\<close>

fun persisted_rows :: "int \<Rightarrow> int \<Rightarrow> PendingImage list \<Rightarrow> GalleryImage list" where
  "persisted_rows owner i [] = []"
| "persisted_rows owner i (p # ps) = row_of owner i p # persisted_rows owner (i + 1) ps"

text \<open>The persist requests among the requests received.\<close>

fun is_add :: "call \<Rightarrow> bool" where
  "is_add (AddGalleryImage _ _ _ _) = True"
| "is_add _ = False"

subsection \<open>Example states\<close>

text \<open>The order-swap example of the spec: \<open>A\<close> with order 2 and \<open>B\<close> with order 5.\<close>

definition imgA :: GalleryImage where
  "imgA = \<lparr>img_id = 1, img_owner = 7, imageUrl = ''https://utfs.io/f/a.png'',
           img_caption = ''A'', img_displayOrder = Some 2\<rparr>"

definition imgB :: GalleryImage where
  "imgB = \<lparr>img_id = 2, img_owner = 7, imageUrl = ''https://utfs.io/f/b.png'',
           img_caption = ''B'', img_displayOrder = Some 5\<rparr>"

text \<open>A manager of project 7 with nothing loaded, pending or tracked.\<close>

definition m0 :: manager where
  "m0 = \<lparr>projectId = 7, dynamicProjectId = 7, isNewProject = False,
         projectGallery = None, pendingImages = [], uploadSessions = [],
         has_commitUploads = True, has_cleanupUploads = True,
         showMaxImagesWarning = False, isUploading = False, mirror = None, toasts = []\<rparr>"

definition pend :: "string \<Rightarrow> int \<Rightarrow> PendingImage" where
  "pend u d = \<lparr>url = u, caption = ''Project image 1'', displayOrder = d\<rparr>"

definition row :: "int \<Rightarrow> string \<Rightarrow> int option \<Rightarrow> GalleryImage" where
  "row i u d = \<lparr>img_id = i, img_owner = 7, imageUrl = u, img_caption = [], img_displayOrder = d\<rparr>"

text \<open>The quota example of the spec: eight persisted rows, and a batch of five uploads.\<close>

definition gallery8 :: "GalleryImage list" where
  "gallery8 = [row 1 ''g1'' (Some 1), row 2 ''g2'' (Some 2), row 3 ''g3'' (Some 3),
               row 4 ''g4'' (Some 4), row 5 ''g5'' (Some 5), row 6 ''g6'' (Some 6),
               row 7 ''g7'' (Some 7), row 8 ''g8'' (Some 8)]"

definition m8 :: manager where
  "m8 = m0\<lparr>projectGallery := Some gallery8\<rparr>"

definition batch5 :: "string list" where
  "batch5 = [''u1'', ''u2'', ''u3'', ''u4'', ''u5'']"

text \<open>One persisted row of order 1 and one pending image of order 2, left by an earlier upload.\<close>

definition mTwoBatches :: manager where
  "mTwoBatches = m0\<lparr>projectGallery := Some [row 1 ''g1'' (Some 1)],
                    pendingImages := [pend ''u1'' 2], mirror := Some (Json [pend ''u1'' 2])\<rparr>"

text \<open>
  A manager with two persisted rows, two pending images, the first of which carries the
  URL of a persisted row, and one tracked session; and what the provider holds for that
  session.
\<close>

definition mCleanup :: manager where
  "mCleanup = m0\<lparr>projectGallery := Some [imgA, imgB],
                 pendingImages := [pend ''https://utfs.io/f/a.png'' 6, pend ''https://utfs.io/f/p.png'' 7],
                 uploadSessions := [''session_1'']\<rparr>"







text \<open>
  The failure example of the spec: three pending images and a remote side on which the
  gallery fetch and the first persist succeed and the second persist is rejected.
\<close>

definition mThree :: manager where
  "mThree = m0\<lparr>pendingImages := [pend ''u1'' 1, pend ''u2'' 2, pend ''u3'' 3],
               mirror := Some (Json [pend ''u1'' 1, pend ''u2'' 2, pend ''u3'' 3]),
               uploadSessions := [''session_1'']\<rparr>"

definition remote0 :: remote where
  "remote0 = \<lparr>rows = [], next_id = 1, faults = [], received = []\<rparr>"

definition remoteFailsSecond :: remote where
  "remoteFailsSecond = remote0\<lparr>faults := [False, False, True]\<rparr>"

text \<open>
  URLs with query strings: a remote gallery with one row of project 7; a manager with
  two pending images, the first on the path of that row; and a manager with pending
  images on the same two paths under other query strings, and one with a pending image
  on a third path.
\<close>

definition remoteOne :: remote where
  "remoteOne = remote0\<lparr>rows := [row 1 ''https://utfs.io/f/g.png?old=1'' (Some 1)], next_id := 2\<rparr>"

definition mQuery :: manager where
  "mQuery = m0\<lparr>pendingImages := [pend ''https://utfs.io/f/g.png?new=2'' 2,
                                  pend ''https://utfs.io/f/a.png?v=1'' 3],
               uploadSessions := [''session_1'']\<rparr>"

definition mQueryAgain :: manager where
  "mQueryAgain = m0\<lparr>pendingImages := [pend ''https://utfs.io/f/a.png?v=2'' 3,
                                       pend ''https://utfs.io/f/g.png'' 2],
                    uploadSessions := [''session_1'']\<rparr>"

definition mOtherPath :: manager where
  "mOtherPath = m0\<lparr>pendingImages := [pend ''https://utfs.io/f/b.png?v=1'' 4],
                   uploadSessions := [''session_1'']\<rparr>"

text \<open>
  A manager whose state has lost its pending image while the mirror still holds it, with
  one tracked session.
\<close>

definition mLost :: manager where
  "mLost = m0\<lparr>pendingImages := [], mirror := Some (Json [pend ''https://utfs.io/f/p.png'' 1]),
              uploadSessions := [''session_1'']\<rparr>"

section \<open>Properties\<close>

subsection \<open>Order manager\<close>

lemma sort_key_head:
  assumes "a \<in> set xs" and "\<forall>x\<in>set xs. x \<noteq> a \<longrightarrow> f a < (f x :: int)"
  shows "\<exists>ys. sort_key f xs = a # ys"
proof (cases "sort_key f xs")
  case Nil
  then have "set (sort_key f xs) = {}" by simp
  with assms(1) show ?thesis by simp
next
  case (Cons h ys)
  have srt: "sorted (map f (h # ys))" using sorted_sort_key [of f xs] Cons by simp
  have st: "set (h # ys) = set xs" using set_sort [of f xs] Cons by simp
  have "h = a"
  proof (rule ccontr)
    assume "h \<noteq> a"
    moreover have "h \<in> set xs" using st by auto
    ultimately have "f a < f h" using assms(2) by blast
    moreover have "a \<in> set ys" using st assms(1) \<open>h \<noteq> a\<close> by auto
    then have "f h \<le> f a" using srt by auto
    ultimately show False by simp
  qed
  with Cons show ?thesis by simp
qed

lemma order_of_patch_same:
  "i \<in> img_id ` set rs \<Longrightarrow> order_of (patch_order i d rs) i = Some d"
  by (induction rs) (auto simp: order_of_def patch_order_def)

lemma order_of_patch_other:
  "j \<noteq> i \<Longrightarrow> order_of (patch_order i d rs) j = order_of rs j"
  by (induction rs) (auto simp: order_of_def patch_order_def)

lemma ids_patch: "img_id ` set (patch_order i d rs) = img_id ` set rs"
  by (induction rs) (auto simp: patch_order_def)

text \<open>
  C8. Let \<open>a\<close> and \<open>b\<close> be rows of the gallery with different ids, \<open>a\<close> the row with the
  greatest display order strictly below that of \<open>b\<close> (every other row below \<open>b\<close> is
  strictly below \<open>a\<close>). Then \<open>moveImageOrderUp\<close> for \<open>b\<close> issues exactly two update
  calls, one giving \<open>b\<close> the order of \<open>a\<close> and one giving \<open>a\<close> the order of \<open>b\<close>; once
  both are applied, in either order of arrival, the two display orders are swapped and
  no other row's order has changed.
\<close>

theorem moveUp_swaps:
  assumes "a \<in> set gallery" and "b \<in> set gallery" and "img_id a \<noteq> img_id b"
    and "img_displayOrder a = Some oa" and "img_displayOrder b = Some ob" and "oa < ob"
    and "\<forall>g\<in>set gallery. g \<noteq> a \<longrightarrow> (\<forall>d. img_displayOrder g = Some d \<longrightarrow> d < ob \<longrightarrow> d < oa)"
  shows "moveImageOrderUp (Some gallery) (img_id b) (Some ob)
           = [UpdateOrder (img_id b) oa, UpdateOrder (img_id a) ob]
       \<and> order_of (apply_updates (moveImageOrderUp (Some gallery) (img_id b) (Some ob)) gallery) (img_id a) = Some ob
       \<and> order_of (apply_updates (moveImageOrderUp (Some gallery) (img_id b) (Some ob)) gallery) (img_id b) = Some oa
       \<and> order_of (apply_updates (rev (moveImageOrderUp (Some gallery) (img_id b) (Some ob))) gallery) (img_id a) = Some ob
       \<and> order_of (apply_updates (rev (moveImageOrderUp (Some gallery) (img_id b) (Some ob))) gallery) (img_id b) = Some oa
       \<and> (\<forall>j. j \<noteq> img_id a \<and> j \<noteq> img_id b \<longrightarrow>
            order_of (apply_updates (moveImageOrderUp (Some gallery) (img_id b) (Some ob)) gallery) j
              = order_of gallery j)"
proof -
  let ?low = "filter (order_below ob) gallery"
  let ?f = "\<lambda>g. - or0 (img_displayOrder g)"
  have a_low: "a \<in> set ?low" using assms(1,4,6) by (simp add: order_below_def)
  have "\<forall>x\<in>set ?low. x \<noteq> a \<longrightarrow> ?f a < ?f x"
    using assms(4,7) by (auto simp: order_below_def or0_def split: option.splits)
  from sort_key_head [OF a_low this] obtain ys where hd: "sort_key ?f ?low = a # ys" ..
  have calls: "moveImageOrderUp (Some gallery) (img_id b) (Some ob)
           = [UpdateOrder (img_id b) oa, UpdateOrder (img_id a) ob]"
    using hd assms(4) by (simp add: moveImageOrderUp_def handleUpdateImageOrder_def or0_def)
  have ia: "img_id a \<in> img_id ` set gallery" and ib: "img_id b \<in> img_id ` set gallery"
    using assms(1,2) by auto
  show ?thesis
    using assms(3) ia ib
    by (simp add: calls apply_updates_def order_of_patch_same order_of_patch_other ids_patch)
qed

theorem moveUp_swaps_witness:
  "imgA \<in> set [imgA, imgB] \<and> imgB \<in> set [imgA, imgB] \<and> img_id imgA \<noteq> img_id imgB
   \<and> img_displayOrder imgA = Some 2 \<and> img_displayOrder imgB = Some 5
   \<and> moveImageOrderUp (Some [imgA, imgB]) 2 (Some 5) = [UpdateOrder 2 2, UpdateOrder 1 5]
   \<and> order_of (apply_updates (moveImageOrderUp (Some [imgA, imgB]) 2 (Some 5)) [imgA, imgB]) 1 = Some 5
   \<and> order_of (apply_updates (moveImageOrderUp (Some [imgA, imgB]) 2 (Some 5)) [imgA, imgB]) 2 = Some 2"
proof -
  have h1: "imgA \<in> set [imgA, imgB]" and h2: "imgB \<in> set [imgA, imgB]" by simp_all
  have h3: "img_id imgA \<noteq> img_id imgB" by (simp add: imgA_def imgB_def)
  have h4: "img_displayOrder imgA = Some 2" by (simp add: imgA_def)
  have h5: "img_displayOrder imgB = Some 5" by (simp add: imgB_def)
  have h6: "(2::int) < 5" by simp
  have h7: "\<forall>g\<in>set [imgA, imgB]. g \<noteq> imgA \<longrightarrow>
              (\<forall>d. img_displayOrder g = Some d \<longrightarrow> d < 5 \<longrightarrow> d < 2)"
    by (simp add: imgB_def)
  have ids: "img_id imgA = 1" "img_id imgB = 2" by (simp_all add: imgA_def imgB_def)
  note swap = moveUp_swaps [OF h1 h2 h3 h4 h5 h6 h7, unfolded ids]
  from swap h1 h2 h3 h4 h5 show ?thesis by blast
qed

text \<open>
  C10. \<open>moveImageOrderUp\<close> issues no update call, and so leaves every display order of
  the persisted rows \<open>rs\<close> as it is, when the current order is null, when the gallery is
  absent, and when no row has a strictly lower display order; likewise
  \<open>moveImageOrderDown\<close> when the current order is null, when the gallery is absent, and
  when no row has a strictly higher one.
\<close>

theorem move_noop:
  "moveImageOrderUp hookGallery i None = []
   \<and> apply_updates (moveImageOrderUp hookGallery i None) rs = rs
   \<and> moveImageOrderUp None i currentOrder = []
   \<and> apply_updates (moveImageOrderUp None i currentOrder) rs = rs
   \<and> ((\<forall>img\<in>set gallery. \<forall>d. img_displayOrder img = Some d \<longrightarrow> \<not> d < cur)
        \<longrightarrow> moveImageOrderUp (Some gallery) i (Some cur) = []
          \<and> apply_updates (moveImageOrderUp (Some gallery) i (Some cur)) rs = rs)
   \<and> moveImageOrderDown hookGallery i None = []
   \<and> apply_updates (moveImageOrderDown hookGallery i None) rs = rs
   \<and> moveImageOrderDown None i currentOrder = []
   \<and> apply_updates (moveImageOrderDown None i currentOrder) rs = rs
   \<and> ((\<forall>img\<in>set gallery. \<forall>d. img_displayOrder img = Some d \<longrightarrow> \<not> d > cur)
        \<longrightarrow> moveImageOrderDown (Some gallery) i (Some cur) = []
          \<and> apply_updates (moveImageOrderDown (Some gallery) i (Some cur)) rs = rs)"
proof -
  have up: "filter (order_below cur) gallery = []"
    if "\<forall>img\<in>set gallery. \<forall>d. img_displayOrder img = Some d \<longrightarrow> \<not> d < cur"
    using that by (auto simp: filter_empty_conv order_below_def split: option.splits)
  have down: "filter (order_above cur) gallery = []"
    if "\<forall>img\<in>set gallery. \<forall>d. img_displayOrder img = Some d \<longrightarrow> \<not> d > cur"
    using that by (auto simp: filter_empty_conv order_above_def split: option.splits)
  have u1: "moveImageOrderUp hookGallery i None = []"
    by (simp add: moveImageOrderUp_def split: option.splits)
  have u2: "moveImageOrderUp None i currentOrder = []"
    by (simp add: moveImageOrderUp_def)
  have u3: "moveImageOrderUp (Some gallery) i (Some cur) = []"
    if "\<forall>img\<in>set gallery. \<forall>d. img_displayOrder img = Some d \<longrightarrow> \<not> d < cur"
    using up [OF that] by (simp add: moveImageOrderUp_def)
  have d1: "moveImageOrderDown hookGallery i None = []"
    by (simp add: moveImageOrderDown_def split: option.splits)
  have d2: "moveImageOrderDown None i currentOrder = []"
    by (simp add: moveImageOrderDown_def)
  have d3: "moveImageOrderDown (Some gallery) i (Some cur) = []"
    if "\<forall>img\<in>set gallery. \<forall>d. img_displayOrder img = Some d \<longrightarrow> \<not> d > cur"
    using down [OF that] by (simp add: moveImageOrderDown_def)
  have e: "apply_updates [] rs = rs" by (simp add: apply_updates_def)
  show ?thesis using u1 u2 u3 d1 d2 d3 e by simp
qed

theorem move_noop_witness:
  "img_displayOrder imgA = Some 2 \<and> img_displayOrder imgB = Some 5
   \<and> moveImageOrderUp (Some [imgA, imgB]) 1 (Some 2) = []
   \<and> apply_updates (moveImageOrderUp (Some [imgA, imgB]) 1 (Some 2)) [imgA, imgB] = [imgA, imgB]
   \<and> moveImageOrderDown (Some [imgA, imgB]) 2 (Some 5) = []
   \<and> apply_updates (moveImageOrderDown (Some [imgA, imgB]) 2 (Some 5)) [imgA, imgB] = [imgA, imgB]"
proof -
  have lo: "\<forall>img\<in>set [imgA, imgB]. \<forall>d. img_displayOrder img = Some d \<longrightarrow> \<not> d < 2"
    by (simp add: imgA_def imgB_def)
  have hi: "\<forall>img\<in>set [imgA, imgB]. \<forall>d. img_displayOrder img = Some d \<longrightarrow> \<not> d > 5"
    by (simp add: imgA_def imgB_def)
  note up = move_noop [of None 1 "[imgA, imgB]" None "[imgA, imgB]" 2]
  note down = move_noop [of None 2 "[imgA, imgB]" None "[imgA, imgB]" 5]
  from up lo have "moveImageOrderUp (Some [imgA, imgB]) 1 (Some 2) = []
      \<and> apply_updates (moveImageOrderUp (Some [imgA, imgB]) 1 (Some 2)) [imgA, imgB] = [imgA, imgB]"
    by blast
  moreover from down hi have "moveImageOrderDown (Some [imgA, imgB]) 2 (Some 5) = []
      \<and> apply_updates (moveImageOrderDown (Some [imgA, imgB]) 2 (Some 5)) [imgA, imgB] = [imgA, imgB]"
    by blast
  moreover have "img_displayOrder imgA = Some 2" and "img_displayOrder imgB = Some 5"
    by (simp_all add: imgA_def imgB_def)
  ultimately show ?thesis by blast
qed

subsection \<open>Cleanup coordinator\<close>


lemma cleanup_guard:
  "cleanupUncommittedFiles b =
     (if uploadSession b \<noteq> [] \<and> \<not> isCommitted b \<and> uploadedFiles b \<noteq> []
      then [CleanupUploads (uploadSession b)
              (filter_Boolean (map imageUrl (gallery_rows (galleryImages b))))]
      else [])"
  by (simp add: cleanupUncommittedFiles_def gallery_rows_def filter_Boolean_def Let_def
           split: option.splits)






subsection \<open>Blog gallery manager: the committed flag\<close>

lemma blogStep_guard:
  assumes "c \<in> set (snd (blogStep e k))"
  shows "\<exists>b\<in>{rendered (fst (blogStep e k)), captured k, handlerView k}.
           uploadSession b \<noteq> [] \<and> \<not> isCommitted b \<and> uploadedFiles b \<noteq> []
           \<and> c = CleanupUploads (uploadSession b)
                   (filter_Boolean (map imageUrl (gallery_rows (galleryImages b))))"
proof -
  have render: "\<exists>b\<in>{v, captured k'}.
           uploadSession b \<noteq> [] \<and> \<not> isCommitted b \<and> uploadedFiles b \<noteq> []
           \<and> c = CleanupUploads (uploadSession b)
                   (filter_Boolean (map imageUrl (gallery_rows (galleryImages b))))"
    if "c \<in> set (snd (blogRender v k'))" for v k'
    using that
    by (auto simp: blogRender_def Let_def dialogCloseEffect_def cleanup_guard split: if_splits)
  have rr: "rendered (fst (blogRender v k')) = v" for v k'
    by (simp add: blogRender_def Let_def)
  show ?thesis
  proof (cases e)
    case UploadFailed
    with assms show ?thesis by (auto simp: cleanup_guard split: if_splits)
  next
    case Unmounted
    with assms show ?thesis by (auto simp: blogUnmount_def cleanup_guard split: if_splits)
  next
    case (HookData g f)
    with assms render [of "(rendered k)\<lparr>galleryImages := g, cleanupUploadsRef := f\<rparr>" k]
    show ?thesis by (auto simp: rr split: if_splits)
  next
    case (SetDialog d)
    with assms render [of "(rendered k)\<lparr>isAddDialogOpen := d\<rparr>" k]
    show ?thesis by (auto simp: rr split: if_splits)
  next
    case (UploadStarted fileUrl sessionId)
    show ?thesis
    proof (cases "mounted k")
      case True
      obtain v where v: "blogStep e k = blogRender v (k\<lparr>handlerView := rendered k\<rparr>)"
        using UploadStarted True by (simp add: Let_def)
      from assms render [of v "k\<lparr>handlerView := rendered k\<rparr>"]
      show ?thesis by (auto simp: v rr)
    next
      case False
      with assms UploadStarted show ?thesis by simp
    qed
  next
    case UploadCommitted
    with assms render [of "(rendered k)\<lparr>isCommitted := True, isAddDialogOpen := False\<rparr>" k]
    show ?thesis by (auto simp: rr split: if_splits)
  next
    case CleanupSucceeded
    with assms
      render [of "(rendered k)\<lparr>uploadedFiles := [],
                               uploadedFilesRef := Suc (uploadedFilesRef (rendered k))\<rparr>" k]
    show ?thesis by (auto simp: rr split: if_splits)
  qed
qed

text \<open>
  The component calls its upload handler without a session id. While no event carries
  one, the session cell stays empty in every render, and no sequence of events issues a
  cleanup call.
\<close>

lemma blogStep_no_session:
  assumes "uploadSession (rendered k) = []" and "uploadSession (captured k) = []"
    and "uploadSession (handlerView k) = []"
    and "\<And>fileUrl sessionId. e = UploadStarted fileUrl sessionId \<Longrightarrow> sessionId = None"
  shows "snd (blogStep e k) = []
       \<and> uploadSession (rendered (fst (blogStep e k))) = []
       \<and> uploadSession (captured (fst (blogStep e k))) = []
       \<and> uploadSession (handlerView (fst (blogStep e k))) = []"
  using assms
  by (cases e)
     (simp_all add: blogRender_def Let_def cleanup_guard dialogCloseEffect_def blogUnmount_def)

lemma blogRun_no_session:
  assumes "\<forall>e\<in>set es. \<forall>fileUrl sessionId. e = UploadStarted fileUrl sessionId \<longrightarrow> sessionId = None"
    and "uploadSession (rendered k) = []" and "uploadSession (captured k) = []"
    and "uploadSession (handlerView k) = []"
  shows "snd (blogRun es k) = []"
  using assms
proof (induction es arbitrary: k)
  case Nil
  then show ?case by simp
next
  case (Cons e es)
  from Cons.prems have e: "\<And>fileUrl sessionId. e = UploadStarted fileUrl sessionId \<Longrightarrow> sessionId = None"
    by simp
  note st = blogStep_no_session [OF Cons.prems(2-4) e]
  from Cons.prems(1) have rest: "\<forall>e\<in>set es. \<forall>fileUrl sessionId. e = UploadStarted fileUrl sessionId \<longrightarrow> sessionId = None"
    by simp
  from Cons.IH [OF rest, of "fst (blogStep e k)"] st
  show ?case by (simp add: split_def Let_def)
qed

lemma blog_as_wired_no_cleanup:
  assumes "\<forall>e\<in>set es. \<forall>fileUrl sessionId. e = UploadStarted fileUrl sessionId \<longrightarrow> sessionId = None"
  shows "snd (blogMount (blogInitial g)) = []
       \<and> snd (blogRun es (fst (blogMount (blogInitial g)))) = []"
proof -
  have "snd (blogRun es (fst (blogMount (blogInitial g)))) = []"
    by (rule blogRun_no_session [OF assms]) (simp_all add: blogMount_def blogInitial_def)
  moreover have "snd (blogMount (blogInitial g)) = []"
    by (simp add: blogMount_def blogInitial_def dialogCloseEffect_def)
  ultimately show ?thesis by simp
qed


subsection \<open>Pending item store\<close>

lemma mkPending_length: "length (mkPending k us) = length us"
  by (simp add: mkPending_def)

lemma mkPending_url: "map url (mkPending k us) = us"
proof -
  have "map url (mkPending k us) = map snd (enumerate 0 us)"
    by (simp add: mkPending_def split_def comp_def)
  then show ?thesis by simp
qed

lemma mkPending_order: "i < length us \<Longrightarrow> displayOrder (mkPending k us ! i) = k + int i"
  by (simp add: mkPending_def nth_enumerate_eq)

lemma dec_MAX: "dec (nat MAX_GALLERY_IMAGES) = ''10''"
  by (simp add: MAX_GALLERY_IMAGES_def dec.simps digit_def)

lemma currentImageCount_nonneg: "0 \<le> currentImageCount m"
  by (simp add: currentImageCount_def split: option.splits)

text \<open>
  C4, as the code has it. When the persisted count plus the pending count plus the size
  \<open>n\<close> of the batch exceeds the maximum of 10, exactly \<open>k = min n (10 - persisted - pending)\<close>
  entries (none when the count has already passed 10) are appended to the pending list,
  made from the first \<open>k\<close> URLs of the batch in batch order, and the mirror holds the new
  list. The notification names the number admitted, \<open>Added k image(s)\<close>, and the
  maximum; it does not name the number rejected. When nothing can be admitted, the
  notification carries no count of the batch and the warning flag is raised.
\<close>

theorem quota_admits_prefix:
  assumes "currentImageCount m + int (length urls) > MAX_GALLERY_IMAGES"
  shows "pendingImages (handleFileUpload m urls)
           = pendingImages m @ mkPending (getNextOrderValue m) (take (admitted m urls) urls)
       \<and> admitted m urls = min (length urls) (nat (10 - currentImageCount m))
       \<and> length (pendingImages (handleFileUpload m urls)) = length (pendingImages m) + admitted m urls
       \<and> map url (pendingImages (handleFileUpload m urls))
           = map url (pendingImages m) @ take (admitted m urls) urls
       \<and> toasts (handleFileUpload m urls) = toasts m @
           [if admitted m urls > 0
            then \<lparr>title = ''Maximum images reached'',
                  description = ''Added '' @ dec (admitted m urls)
                     @ '' image(s). Projects can have a maximum of 10 images.'',
                  variant = Some ''default''\<rparr>
            else \<lparr>title = ''Maximum images reached'',
                  description = ''Projects can have a maximum of 10 images. Delete some images to add more.'',
                  variant = Some ''destructive''\<rparr>]
       \<and> (admitted m urls > 0 \<longrightarrow>
            mirror (handleFileUpload m urls) = Some (Json (pendingImages (handleFileUpload m urls))))
       \<and> (admitted m urls = 0 \<longrightarrow>
            showMaxImagesWarning (handleFileUpload m urls) \<and> mirror (handleFileUpload m urls) = mirror m)"
proof -
  let ?c = "currentImageCount m"
  have adm: "admitted m urls = min (length urls) (nat (10 - ?c))"
    by (simp add: admitted_def MAX_GALLERY_IMAGES_def)
  show ?thesis
  proof (cases "MAX_GALLERY_IMAGES - ?c > 0")
    case True
    then have k: "admitted m urls = nat (MAX_GALLERY_IMAGES - ?c)"
      using assms by (simp add: admitted_def)
    have pos: "0 < nat (MAX_GALLERY_IMAGES - ?c)" using True by simp
    have hf: "handleFileUpload m urls
        = notify \<lparr>title = ''Maximum images reached'',
                  description = ''Added '' @ dec (admitted m urls)
                     @ '' image(s). Projects can have a maximum of 10 images.'',
                  variant = Some ''default''\<rparr>
            (appendPending (mkPending (getNextOrderValue m) (take (admitted m urls) urls)) m)"
      using assms True by (simp add: handleFileUpload_def Let_def k dec_MAX max_def)
    have apos: "admitted m urls \<noteq> 0" using pos k by simp
    have ale: "admitted m urls \<le> length urls" by (simp add: admitted_def)
    show ?thesis
      using apos ale
      by (simp add: hf notify_def appendPending_def mkPending_url mkPending_length adm [symmetric])
  next
    case False
    then have k: "admitted m urls = 0" by (simp add: admitted_def)
    have hf: "handleFileUpload m urls
        = notify \<lparr>title = ''Maximum images reached'',
                  description = ''Projects can have a maximum of 10 images. Delete some images to add more.'',
                  variant = Some ''destructive''\<rparr>
            (m\<lparr>showMaxImagesWarning := True\<rparr>)"
      using assms False by (simp add: handleFileUpload_def Let_def dec_MAX max_def)
    show ?thesis
      by (simp add: hf notify_def adm [symmetric] k mkPending_def)
  qed
qed

theorem quota_admits_prefix_witness:
  "currentImageCount m8 = 8 \<and> length batch5 = 5
   \<and> admitted m8 batch5 = 2
   \<and> map url (pendingImages (handleFileUpload m8 batch5)) = [''u1'', ''u2'']
   \<and> map displayOrder (pendingImages (handleFileUpload m8 batch5)) = [9, 10]
   \<and> toasts (handleFileUpload m8 batch5)
       = [\<lparr>title = ''Maximum images reached'',
           description = ''Added 2 image(s). Projects can have a maximum of 10 images.'',
           variant = Some ''default''\<rparr>]"
proof -
  have c: "currentImageCount m8 = 8" by code_simp
  have l: "length batch5 = 5" by (simp add: batch5_def)
  have h: "currentImageCount m8 + int (length batch5) > MAX_GALLERY_IMAGES"
    by (simp add: c l MAX_GALLERY_IMAGES_def)
  have a: "admitted m8 batch5 = 2" by code_simp
  have p: "pendingImages m8 = []" by (simp add: m8_def m0_def)
  have t: "toasts m8 = []" by (simp add: m8_def m0_def)
  have d2: "dec 2 = ''2''" by (simp add: dec.simps digit_def)
  have tk: "take 2 batch5 = [''u1'', ''u2'']" by (simp add: batch5_def)
  have o: "map displayOrder (pendingImages (handleFileUpload m8 batch5)) = [9, 10]" by code_simp
  from quota_admits_prefix [OF h]
  have "map url (pendingImages (handleFileUpload m8 batch5)) = [''u1'', ''u2'']"
    and "toasts (handleFileUpload m8 batch5)
       = [\<lparr>title = ''Maximum images reached'',
           description = ''Added 2 image(s). Projects can have a maximum of 10 images.'',
           variant = Some ''default''\<rparr>]"
    by (simp_all add: a p t d2 tk mkPending_url)
  with c l a o show ?thesis by blast
qed

text \<open>
  The claim C4 as stated, that the caller is told how many were rejected (3 for 8
  persisted rows and 5 uploads), fails: with 8 persisted rows the batch of 5 uploads is
  answered by the one notification \<open>Added 2 image(s). Projects can have a maximum of 10
  images.\<close>, and the whole outcome of the call (state, mirror and notification) is the
  same as for the batch of its first 3 uploads, of which 1 is rejected and not 3.
\<close>

theorem quota_rejected_not_reported_counterexample:
  "toasts (handleFileUpload m8 batch5)
       = [\<lparr>title = ''Maximum images reached'',
           description = ''Added 2 image(s). Projects can have a maximum of 10 images.'',
           variant = Some ''default''\<rparr>]
   \<and> handleFileUpload m8 batch5 = handleFileUpload m8 (take 3 batch5)
   \<and> int (length batch5) - int (length (pendingImages (handleFileUpload m8 batch5))) = 3
   \<and> int (length (take 3 batch5))
        - int (length (pendingImages (handleFileUpload m8 (take 3 batch5)))) = 1"
  by code_simp

text \<open>
  C5. The claim takes the first new display order to be one more than the greatest
  order over the persisted rows and the pending images together. With a gallery that is
  not empty, \<open>getNextOrderValue\<close> looks at the persisted rows only: with one persisted row
  of order 1 and one pending image of order 2, the greatest order plus one is 3, and the
  next upload is given order 2 again.
\<close>

theorem next_order_ignores_pending:
  "map img_displayOrder (gallery_rows (projectGallery mTwoBatches)) = [Some 1]
   \<and> map displayOrder (pendingImages mTwoBatches) = [2]
   \<and> math_max 1 [2] + 1 = 3
   \<and> getNextOrderValue mTwoBatches = 2
   \<and> map displayOrder (pendingImages (handleFileUpload mTwoBatches [''u2''])) = [2, 2]"
  by code_simp

subsection \<open>Deleting a pending image\<close>

lemma others_eq: "0 \<le> i \<Longrightarrow> others i xs = take (nat i) xs @ drop (Suc (nat i)) xs"
proof (induction xs arbitrary: i rule: rev_induct)
  case Nil
  then show ?case by (simp add: others_def)
next
  case (snoc x xs)
  have IH: "others i xs = take (nat i) xs @ drop (Suc (nat i)) xs" using snoc by simp
  have "others i (xs @ [x]) = others i xs @ (if int (length xs) \<noteq> i then [x] else [])"
    by (simp add: others_def enumerate_append_eq)
  then have step: "others i (xs @ [x]) = take (nat i) xs @ drop (Suc (nat i)) xs
                                         @ (if int (length xs) \<noteq> i then [x] else [])"
    using IH by simp
  consider "nat i < length xs" | "nat i = length xs" | "nat i > length xs" by linarith
  then show ?case
  proof cases
    case 1
    then show ?thesis using step snoc.prems by auto
  next
    case 2
    then show ?thesis using step snoc.prems by auto
  next
    case 3
    then show ?thesis using step snoc.prems by auto
  qed
qed

lemma splice1_eq:
  "0 \<le> i \<Longrightarrow> i < int (length xs) \<Longrightarrow> splice1 i xs = take (nat i) xs @ drop (Suc (nat i)) xs"
  by (simp add: splice1_def Let_def min_def)

text \<open>
  C6. Deleting the pending image at a valid index removes that entry from the pending
  list and touches nothing else but the warning flag. When its URL is the URL of a
  persisted row, no request is issued. When it is not (and the entry has a URL), exactly
  one file cleanup is requested, for that URL, whose preserve list is the URLs of all
  persisted rows followed by the URLs of the pending images at all other indices.
\<close>

theorem delete_pending:
  assumes "0 \<le> index" and "index < int (length (pendingImages m))"
    and "p = pendingImages m ! nat index"
  shows "fst (handleDeletePendingImage m index)
           = m\<lparr>pendingImages := take (nat index) (pendingImages m) @ drop (Suc (nat index)) (pendingImages m),
               showMaxImagesWarning := False\<rparr>
       \<and> (url p \<in> imageUrl ` set (gallery_rows (projectGallery m))
            \<longrightarrow> snd (handleDeletePendingImage m index) = [])
       \<and> (url p \<notin> imageUrl ` set (gallery_rows (projectGallery m)) \<and> url p \<noteq> []
            \<longrightarrow> snd (handleDeletePendingImage m index)
                  = [FileCleanup (url p)
                       (map imageUrl (gallery_rows (projectGallery m))
                        @ map url (take (nat index) (pendingImages m)
                                   @ drop (Suc (nat index)) (pendingImages m)))])
       \<and> (\<forall>c\<in>set (snd (handleDeletePendingImage m index)). \<forall>fileUrl preserveUrls.
             c = FileCleanup fileUrl preserveUrls \<longrightarrow>
               fileUrl = url p
               \<and> set preserveUrls
                  = imageUrl ` set (gallery_rows (projectGallery m))
                    \<union> url ` set (take (nat index) (pendingImages m)
                                  @ drop (Suc (nat index)) (pendingImages m)))"
  using assms
  by (auto simp: handleDeletePendingImage_def Let_def at_index_def splice1_eq others_eq
                 gallery_rows_def
           split: option.splits)

theorem delete_pending_witness:
  "url (pendingImages mCleanup ! 0) = imageUrl imgA
   \<and> snd (handleDeletePendingImage mCleanup 0) = []
   \<and> map url (pendingImages (fst (handleDeletePendingImage mCleanup 0))) = [''https://utfs.io/f/p.png'']
   \<and> snd (handleDeletePendingImage mCleanup 1)
       = [FileCleanup ''https://utfs.io/f/p.png''
            [''https://utfs.io/f/a.png'', ''https://utfs.io/f/b.png'', ''https://utfs.io/f/a.png'']]"
proof -
  have pl: "pendingImages mCleanup
      = [pend ''https://utfs.io/f/a.png'' 6, pend ''https://utfs.io/f/p.png'' 7]"
    by (simp add: mCleanup_def m0_def)
  have gl: "gallery_rows (projectGallery mCleanup) = [imgA, imgB]"
    by (simp add: mCleanup_def m0_def gallery_rows_def)
  have u0: "url (pendingImages mCleanup ! 0) = imageUrl imgA"
    by (simp add: pl pend_def imgA_def)
  have i0: "(0::int) \<le> 0" "(0::int) < int (length (pendingImages mCleanup))" by (simp_all add: pl)
  have i1: "(0::int) \<le> 1" "(1::int) < int (length (pendingImages mCleanup))" by (simp_all add: pl)
  have in0: "url (pendingImages mCleanup ! nat 0) \<in> imageUrl ` set (gallery_rows (projectGallery mCleanup))"
    using u0 by (simp add: gl)
  have out1: "url (pendingImages mCleanup ! nat 1) \<notin> imageUrl ` set (gallery_rows (projectGallery mCleanup))
              \<and> url (pendingImages mCleanup ! nat 1) \<noteq> []"
    by (simp add: pl gl pend_def imgA_def imgB_def)
  from delete_pending [OF i0 refl] in0
  have r0: "snd (handleDeletePendingImage mCleanup 0) = []"
    and s0: "fst (handleDeletePendingImage mCleanup 0)
           = mCleanup\<lparr>pendingImages := take (nat 0) (pendingImages mCleanup)
                                       @ drop (Suc (nat 0)) (pendingImages mCleanup),
               showMaxImagesWarning := False\<rparr>"
    by blast+
  from delete_pending [OF i1 refl] out1
  have r1: "snd (handleDeletePendingImage mCleanup 1)
                  = [FileCleanup (url (pendingImages mCleanup ! nat 1))
                       (map imageUrl (gallery_rows (projectGallery mCleanup))
                        @ map url (take (nat 1) (pendingImages mCleanup)
                                   @ drop (Suc (nat 1)) (pendingImages mCleanup)))]"
    by blast
  have e0: "map url (pendingImages (fst (handleDeletePendingImage mCleanup 0))) = [''https://utfs.io/f/p.png'']"
    by (simp add: s0 pl pend_def)
  have e1: "snd (handleDeletePendingImage mCleanup 1)
       = [FileCleanup ''https://utfs.io/f/p.png''
            [''https://utfs.io/f/a.png'', ''https://utfs.io/f/b.png'', ''https://utfs.io/f/a.png'']]"
    by (simp add: r1 pl gl pend_def imgA_def imgB_def)
  from u0 r0 e0 e1 show ?thesis by blast
qed

subsection \<open>Reconciliation engine: the loops of save\<close>

lemma receive_fields [simp]:
  "rows (receive c r) = rows r" "next_id (receive c r) = next_id r"
  "faults (receive c r) = tl (faults r)" "received (receive c r) = received r @ [c]"
  by (simp_all add: receive_def)

lemma persisted_rows_urls: "map imageUrl (persisted_rows owner i ps) = map url ps"
  by (induction ps arbitrary: i) (simp_all add: row_of_def)

lemma persisted_rows_owner: "g \<in> set (persisted_rows owner i ps) \<Longrightarrow> img_owner g = owner"
  by (induction ps arbitrary: i) (auto simp: row_of_def)

lemma persistAll_fails_at:
  assumes "faults r = replicate j False @ True # fs"
    and "j < length (with_url ps)"
  shows "fst (persistAll owner ps r) = Inl (Rejected (add_call owner (with_url ps ! j)))
       \<and> rows (snd (persistAll owner ps r))
           = rows r @ persisted_rows owner (next_id r) (take j (with_url ps))
       \<and> received (snd (persistAll owner ps r))
           = received r @ map (add_call owner) (take (Suc j) (with_url ps))"
  using assms
proof (induction ps arbitrary: r j)
  case Nil
  then show ?case by (simp add: with_url_def)
next
  case (Cons p ps)
  show ?case
  proof (cases "url p = []")
    case True
    then have w: "with_url (p # ps) = with_url ps" by (simp add: with_url_def)
    show ?thesis using Cons.IH [of r j] Cons.prems True by (simp add: w)
  next
    case False
    then have w: "with_url (p # ps) = p # with_url ps" by (simp add: with_url_def)
    show ?thesis
    proof (cases j)
      case 0
      then have "fails_next r" using Cons.prems(1) by (simp add: fails_next_def)
      then show ?thesis using False 0 by (simp add: w api_add_image_def)
    next
      case (Suc j')
      then have nf: "\<not> fails_next r" using Cons.prems(1) by (simp add: fails_next_def)
      let ?r1 = "(receive (add_call owner p) r)
              \<lparr>rows := rows r @ [row_of owner (next_id r) p], next_id := next_id r + 1\<rparr>"
      have f1: "faults ?r1 = replicate j' False @ True # fs" using Cons.prems(1) Suc by simp
      have l1: "j' < length (with_url ps)" using Cons.prems(2) Suc w by simp
      have step: "persistAll owner (p # ps) r = persistAll owner ps ?r1"
        using False nf by (simp add: api_add_image_def)
      show ?thesis unfolding step w Suc using Cons.IH [OF f1 l1] by simp
    qed
  qed
qed

lemma persistAll_ok:
  "persistAll owner ps r = (Inr u, r') \<Longrightarrow>
     rows r' = rows r @ persisted_rows owner (next_id r) (with_url ps)"
proof (induction ps arbitrary: r)
  case Nil
  then show ?case by (simp add: with_url_def)
next
  case (Cons p ps)
  show ?case
  proof (cases "url p = []")
    case True
    then show ?thesis using Cons by (simp add: with_url_def)
  next
    case False
    show ?thesis
    proof (cases "fails_next r")
      case True
      then show ?thesis using Cons.prems False by (simp add: api_add_image_def)
    next
      case nf: False
      let ?r1 = "(receive (add_call owner p) r)
              \<lparr>rows := rows r @ [row_of owner (next_id r) p], next_id := next_id r + 1\<rparr>"
      have "persistAll owner ps ?r1 = (Inr u, r')"
        using Cons.prems False nf by (simp add: api_add_image_def)
      from Cons.IH [OF this] show ?thesis using False by (simp add: with_url_def)
    qed
  qed
qed

lemma persistAll_nothing:
  "with_url ps = [] \<Longrightarrow> persistAll owner ps r = (Inr (), r)"
  by (induction ps) (auto simp: with_url_def split: if_splits)

lemma commitAll_rows: "rows (snd (commitAll ss us r)) = rows r"
  by (induction ss arbitrary: r) (auto simp: api_commit_def split: prod.splits sum.splits)

lemma commitAll_adds:
  "filter is_add (received (snd (commitAll ss us r))) = filter is_add (received r)"
  by (induction ss arbitrary: r) (auto simp: api_commit_def split: prod.splits sum.splits)

lemma commitTracked_rows: "rows (snd (commitTracked m us r)) = rows r"
  by (simp add: commitTracked_def commitAll_rows)

lemma commitTracked_adds:
  "filter is_add (received (snd (commitTracked m us r))) = filter is_add (received r)"
  by (simp add: commitTracked_def commitAll_adds)

subsection \<open>Reconciliation engine: the paths of save\<close>

lemma save_empty:
  "loadPending (pendingImages m) (mirror m) = [] \<Longrightarrow> saveGalleryImages m r = (Inr (), m, r)"
  by (simp add: saveGalleryImages_def)

lemma save_new_remote:
  assumes "isNewProject m"
  shows "snd (snd (saveGalleryImages m r)) = r
       \<or> snd (snd (saveGalleryImages m r))
            = snd (commitTracked m (map url (loadPending (pendingImages m) (mirror m))) r)"
  using assms
  by (auto simp: saveGalleryImages_def Let_def saveFailed_def split: prod.splits sum.splits)

lemma save_get_fails:
  assumes "loadPending (pendingImages m) (mirror m) \<noteq> []" and "\<not> isNewProject m"
    and "fails_next r"
  shows "saveGalleryImages m r
           = saveFailed (Rejected (GetGallery (dynamicProjectId m))) m
               (receive (GetGallery (dynamicProjectId m)) r)"
  using assms by (simp add: saveGalleryImages_def api_get_gallery_def)

lemma save_existing:
  assumes "loadPending (pendingImages m) (mirror m) \<noteq> []" and "\<not> isNewProject m"
    and "\<not> fails_next r"
    and "existing = map imageUrl (filter (\<lambda>g. img_owner g = dynamicProjectId m) (rows r))"
    and "new = newPendingImagesOf (loadPending (pendingImages m) (mirror m)) existing"
    and "r1 = receive (GetGallery (dynamicProjectId m)) r"
  shows "saveGalleryImages m r =
     (case persistAll (dynamicProjectId m) new r1 of
        (Inl e, r2) \<Rightarrow> saveFailed e m r2
      | (Inr _, r2) \<Rightarrow>
         (case commitTracked m (map url (pendingImages m) @ existing) r2 of
            (Inl e, r3) \<Rightarrow> saveFailed e m r3
          | (Inr _, r3) \<Rightarrow>
             (Inr (),
              (notify \<lparr>title = ''Gallery updated'',
                       description = dec (length new) @ '' image''
                         @ (if length new > 1 \<or> length new = 0 then ''s'' else [])
                         @ '' added to the gallery successfully.'',
                       variant = None\<rparr> m)
                \<lparr>pendingImages := [], mirror := None,
                 showMaxImagesWarning := False, isUploading := False\<rparr>,
              r3)))"
  using assms(1-3) unfolding assms(4-6)
  by (simp add: saveGalleryImages_def api_get_gallery_def existingUrlsOf_def Let_def)

text \<open>
  C2. Let save run for an existing project, let the gallery fetch and the first \<open>i\<close>
  persist calls succeed and the next persist call, for entry \<open>i\<close> (counted from 0) of
  the new entries that carry a URL, be rejected. Then save ends with that call's error;
  the remote gallery has gained exactly the rows of the entries before \<open>i\<close>; the
  requests that reached the remote side are the fetch and the persists of the entries up
  to \<open>i\<close>, so no later entry was sent and no commit was made; and the component state
  is as before, pending list and mirror included, but for the failure notification and
  the upload flag.
\<close>

theorem save_failure_keeps_pending:
  assumes "\<not> isNewProject m"
    and "qs = with_url (newPendingImagesOf (loadPending (pendingImages m) (mirror m))
                  (map imageUrl (filter (\<lambda>g. img_owner g = dynamicProjectId m) (rows r))))"
    and "i < length qs"
    and "faults r = False # replicate i False @ True # fs"
  shows "fst (saveGalleryImages m r) = Inl (Rejected (add_call (dynamicProjectId m) (qs ! i)))
       \<and> fst (snd (saveGalleryImages m r))
           = m\<lparr>toasts := toasts m @
                   [\<lparr>title = ''Save failed'',
                     description = ''Failed to add some images to the gallery. Please try again.'',
                     variant = Some ''destructive''\<rparr>],
                isUploading := False\<rparr>
       \<and> pendingImages (fst (snd (saveGalleryImages m r))) = pendingImages m
       \<and> mirror (fst (snd (saveGalleryImages m r))) = mirror m
       \<and> rows (snd (snd (saveGalleryImages m r)))
           = rows r @ persisted_rows (dynamicProjectId m) (next_id r) (take i qs)
       \<and> received (snd (snd (saveGalleryImages m r)))
           = received r @ GetGallery (dynamicProjectId m)
               # map (add_call (dynamicProjectId m)) (take (Suc i) qs)"
proof -
  let ?pid = "dynamicProjectId m"
  let ?loaded = "loadPending (pendingImages m) (mirror m)"
  let ?existing = "map imageUrl (filter (\<lambda>g. img_owner g = ?pid) (rows r))"
  let ?new = "newPendingImagesOf ?loaded ?existing"
  let ?r1 = "receive (GetGallery ?pid) r"
  have ne: "?loaded \<noteq> []"
    using assms(2,3) by (auto simp: with_url_def newPendingImagesOf_def)
  have nf: "\<not> fails_next r" using assms(4) by (simp add: fails_next_def)
  have f1: "faults ?r1 = replicate i False @ True # fs" using assms(4) by simp
  have l1: "i < length (with_url ?new)" using assms(2,3) by simp
  note pf = persistAll_fails_at [OF f1 l1, of ?pid]
  obtain e r2 where pa: "persistAll ?pid ?new ?r1 = (Inl e, r2)"
    using pf by (cases "persistAll ?pid ?new ?r1") auto
  have e: "e = Rejected (add_call ?pid (qs ! i))" using pf pa assms(2) by simp
  have r2: "rows r2 = rows r @ persisted_rows ?pid (next_id r) (take i qs)"
    "received r2 = received r @ GetGallery ?pid # map (add_call ?pid) (take (Suc i) qs)"
    using pf pa assms(2) by simp_all
  have sv: "saveGalleryImages m r = saveFailed e m r2"
    using save_existing [OF ne assms(1) nf refl refl refl] pa by simp
  show ?thesis
    by (simp add: sv saveFailed_def notify_def e r2)
qed

theorem save_failure_keeps_pending_witness:
  "fst (saveGalleryImages mThree remoteFailsSecond)
     = Inl (Rejected (AddGalleryImage 7 ''u2'' ''Project image 1'' 2))
   \<and> pendingImages (fst (snd (saveGalleryImages mThree remoteFailsSecond))) = pendingImages mThree
   \<and> mirror (fst (snd (saveGalleryImages mThree remoteFailsSecond))) = mirror mThree
   \<and> map imageUrl (rows (snd (snd (saveGalleryImages mThree remoteFailsSecond)))) = [''u1'']
   \<and> received (snd (snd (saveGalleryImages mThree remoteFailsSecond)))
       = [GetGallery 7, AddGalleryImage 7 ''u1'' ''Project image 1'' 1,
          AddGalleryImage 7 ''u2'' ''Project image 1'' 2]"
proof -
  let ?qs = "[pend ''u1'' 1, pend ''u2'' 2, pend ''u3'' 3]"
  have h1: "\<not> isNewProject mThree" by (simp add: mThree_def m0_def)
  have h2: "?qs = with_url (newPendingImagesOf (loadPending (pendingImages mThree) (mirror mThree))
                  (map imageUrl (filter (\<lambda>g. img_owner g = dynamicProjectId mThree)
                                        (rows remoteFailsSecond))))"
    by (simp add: mThree_def m0_def remoteFailsSecond_def remote0_def loadPending_def
                  newPendingImagesOf_def with_url_def pend_def)
  have h3: "1 < length ?qs" by simp
  have h4: "faults remoteFailsSecond = False # replicate 1 False @ True # []"
    by (simp add: remoteFailsSecond_def remote0_def)
  have pid: "dynamicProjectId mThree = 7" by (simp add: mThree_def m0_def)
  have r0: "rows remoteFailsSecond = []" "received remoteFailsSecond = []"
    "next_id remoteFailsSecond = 1"
    by (simp_all add: remoteFailsSecond_def remote0_def)
  from save_failure_keeps_pending [OF h1 h2 h3 h4]
  show ?thesis
    by (simp add: pid r0 add_call_def pend_def row_of_def)
qed

subsection \<open>Reconciliation engine: a second save\<close>

lemma loadPending_cleared: "loadPending [] None = []"
  by (simp add: loadPending_def)

lemma save_frame:
  "dynamicProjectId (fst (snd (saveGalleryImages m r))) = dynamicProjectId m
   \<and> isNewProject (fst (snd (saveGalleryImages m r))) = isNewProject m
   \<and> set (loadPending (pendingImages (fst (snd (saveGalleryImages m r))))
                       (mirror (fst (snd (saveGalleryImages m r)))))
        \<subseteq> set (loadPending (pendingImages m) (mirror m))"
  by (simp add: saveGalleryImages_def Let_def saveFailed_def notify_def loadPending_cleared
           split: prod.splits sum.splits)

lemma save_ok_covers:
  assumes ok: "saveGalleryImages m r = (Inr (), m', r')"
    and nn: "\<not> isNewProject m"
    and p: "p \<in> set (loadPending (pendingImages m) (mirror m))"
    and u: "url p \<noteq> []"
  shows "normalizeUrl (url p)
           \<in> set (map normalizeUrl
                    (map imageUrl (filter (\<lambda>g. img_owner g = dynamicProjectId m) (rows r'))))"
proof -
  let ?pid = "dynamicProjectId m"
  let ?loaded = "loadPending (pendingImages m) (mirror m)"
  let ?existing = "map imageUrl (filter (\<lambda>g. img_owner g = ?pid) (rows r))"
  let ?new = "newPendingImagesOf ?loaded ?existing"
  let ?r1 = "receive (GetGallery ?pid) r"
  have ne: "?loaded \<noteq> []" using p by auto
  have nf: "\<not> fails_next r"
  proof
    assume "fails_next r"
    from save_get_fails [OF ne nn this] ok show False by (simp add: saveFailed_def)
  qed
  note sv = save_existing [OF ne nn nf refl refl refl]
  obtain x r2 where pa: "persistAll ?pid ?new ?r1 = (x, r2)" by (cases "persistAll ?pid ?new ?r1")
  have "\<exists>u2. x = Inr u2"
  proof (cases x)
    case (Inl e)
    with sv pa ok show ?thesis by (simp add: saveFailed_def)
  next
    case (Inr u2)
    then show ?thesis by simp
  qed
  then obtain u2 where x: "x = Inr u2" ..
  let ?urls = "map url (pendingImages m) @ ?existing"
  obtain y r3 where ct: "commitTracked m ?urls r2 = (y, r3)" by (cases "commitTracked m ?urls r2")
  have r3: "r' = r3"
  proof (cases y)
    case (Inl e)
    with sv pa x ct ok show ?thesis by (simp add: saveFailed_def)
  next
    case (Inr u3)
    with sv pa x ct ok show ?thesis by simp
  qed
  have "rows r3 = rows r2" using commitTracked_rows [of m ?urls r2] ct by simp
  moreover have "rows r2 = rows r @ persisted_rows ?pid (next_id r) (with_url ?new)"
    using persistAll_ok [of ?pid ?new ?r1 u2 r2] pa x by simp
  ultimately have rows': "rows r' = rows r @ persisted_rows ?pid (next_id r) (with_url ?new)"
    using r3 by simp
  show ?thesis
  proof (cases "p \<in> set ?new")
    case True
    then have "url p \<in> set (map url (with_url ?new))" using u by (simp add: with_url_def)
    then have "url p \<in> set (map imageUrl (persisted_rows ?pid (next_id r) (with_url ?new)))"
      by (simp add: persisted_rows_urls)
    then obtain g where g: "g \<in> set (persisted_rows ?pid (next_id r) (with_url ?new))"
      and gu: "imageUrl g = url p" by auto
    have "img_owner g = ?pid" using persisted_rows_owner [OF g] .
    then have "g \<in> set (filter (\<lambda>g. img_owner g = ?pid) (rows r'))" using g rows' by simp
    then show ?thesis using gu by force
  next
    case False
    then have "normalizeUrl (url p) \<in> set (map normalizeUrl ?existing)"
      using p by (simp add: newPendingImagesOf_def)
    then show ?thesis using rows' by auto
  qed
qed

lemma save_nothing_new:
  assumes "\<not> isNewProject m \<longrightarrow>
             (\<forall>p\<in>set (loadPending (pendingImages m) (mirror m)). url p \<noteq> [] \<longrightarrow>
                normalizeUrl (url p)
                  \<in> set (map normalizeUrl
                           (map imageUrl (filter (\<lambda>g. img_owner g = dynamicProjectId m) (rows r)))))"
  shows "rows (snd (snd (saveGalleryImages m r))) = rows r
       \<and> filter is_add (received (snd (snd (saveGalleryImages m r)))) = filter is_add (received r)"
proof -
  let ?pid = "dynamicProjectId m"
  let ?loaded = "loadPending (pendingImages m) (mirror m)"
  let ?existing = "map imageUrl (filter (\<lambda>g. img_owner g = ?pid) (rows r))"
  let ?new = "newPendingImagesOf ?loaded ?existing"
  let ?r1 = "receive (GetGallery ?pid) r"
  consider (empty) "?loaded = []"
    | (new) "?loaded \<noteq> []" "isNewProject m"
    | (fails) "?loaded \<noteq> []" "\<not> isNewProject m" "fails_next r"
    | (runs) "?loaded \<noteq> []" "\<not> isNewProject m" "\<not> fails_next r"
    by blast
  then show ?thesis
  proof cases
    case empty
    then show ?thesis by (simp add: save_empty)
  next
    case new
    from save_new_remote [OF new(2), of r] show ?thesis
      by (auto simp: commitTracked_rows commitTracked_adds)
  next
    case fails
    then show ?thesis by (simp add: save_get_fails saveFailed_def)
  next
    case runs
    have "with_url ?new = []"
      using assms runs(2) by (auto simp: with_url_def newPendingImagesOf_def filter_empty_conv)
    then have pa: "persistAll ?pid ?new ?r1 = (Inr (), ?r1)" by (rule persistAll_nothing)
    let ?urls = "map url (pendingImages m) @ ?existing"
    obtain y r3 where ct: "commitTracked m ?urls ?r1 = (y, r3)"
      by (cases "commitTracked m ?urls ?r1")
    have r3: "rows r3 = rows r" "filter is_add (received r3) = filter is_add (received r)"
      using commitTracked_rows [of m ?urls ?r1] commitTracked_adds [of m ?urls ?r1] ct
      by simp_all
    have "snd (snd (saveGalleryImages m r)) = r3"
      using save_existing [OF runs refl refl refl] pa ct
      by (cases y) (simp_all add: saveFailed_def)
    then show ?thesis using r3 by simp
  qed
qed

lemma normalizeUrl_path: "normalizeUrl u = trim (path_of u)"
  by (simp add: normalizeUrl_def path_of_def)

lemma same_path_same_key: "path_of u = path_of v \<Longrightarrow> normalizeUrl u = normalizeUrl v"
  by (simp add: normalizeUrl_path)

text \<open>
  C3. If a call of save returns without error, then a second call for the same owner
  with no new upload in between persists nothing: the remote gallery keeps its rows and
  no persist request is sent. No new upload means that every pending image of the
  second call that carries a URL is, by its path, the URL up to the query string, a
  pending image of the first call; the query strings may differ. This covers the state
  the first call left, where the pending list and the mirror are cleared, and a state
  that still or again holds pending images of the first call, under whatever query
  strings: each of them has its normalised URL, which is a function of its path, among
  the normalised URLs of the gallery that the second call fetches, and is filtered out.
\<close>

theorem save_twice_persists_nothing:
  assumes "saveGalleryImages m r = (Inr (), m', r')"
    and "\<forall>p2\<in>set (with_url (loadPending (pendingImages m2) (mirror m2))).
           \<exists>p\<in>set (with_url (loadPending (pendingImages m) (mirror m))).
             path_of (url p2) = path_of (url p)"
    and "dynamicProjectId m2 = dynamicProjectId m" and "isNewProject m2 = isNewProject m"
  shows "rows (snd (snd (saveGalleryImages m' r'))) = rows r'
       \<and> filter is_add (received (snd (snd (saveGalleryImages m' r')))) = filter is_add (received r')
       \<and> rows (snd (snd (saveGalleryImages m2 r'))) = rows r'
       \<and> filter is_add (received (snd (snd (saveGalleryImages m2 r')))) = filter is_add (received r')"
proof -
  have gen: "rows (snd (snd (saveGalleryImages n r'))) = rows r'
       \<and> filter is_add (received (snd (snd (saveGalleryImages n r')))) = filter is_add (received r')"
    if same: "\<forall>p2\<in>set (with_url (loadPending (pendingImages n) (mirror n))).
                \<exists>p\<in>set (with_url (loadPending (pendingImages m) (mirror m))).
                  path_of (url p2) = path_of (url p)"
      and pid: "dynamicProjectId n = dynamicProjectId m"
      and new: "isNewProject n = isNewProject m" for n
  proof (rule save_nothing_new, intro impI ballI)
    fix p2
    assume nn: "\<not> isNewProject n"
      and p2: "p2 \<in> set (loadPending (pendingImages n) (mirror n))"
      and u2: "url p2 \<noteq> []"
    from nn new have nn': "\<not> isNewProject m" by simp
    from p2 u2 have "p2 \<in> set (with_url (loadPending (pendingImages n) (mirror n)))"
      by (simp add: with_url_def)
    with same obtain p where p: "p \<in> set (with_url (loadPending (pendingImages m) (mirror m)))"
      and path: "path_of (url p2) = path_of (url p)" by blast
    from p have p': "p \<in> set (loadPending (pendingImages m) (mirror m))" and u: "url p \<noteq> []"
      by (simp_all add: with_url_def)
    from save_ok_covers [OF assms(1) nn' p' u] same_path_same_key [OF path]
    show "normalizeUrl (url p2)
            \<in> set (map normalizeUrl
                     (map imageUrl (filter (\<lambda>g. img_owner g = dynamicProjectId n) (rows r'))))"
      by (simp add: pid)
  qed
  have m': "m' = fst (snd (saveGalleryImages m r))" using assms(1) by simp
  have "\<forall>p2\<in>set (with_url (loadPending (pendingImages m') (mirror m'))).
          \<exists>p\<in>set (with_url (loadPending (pendingImages m) (mirror m))).
            path_of (url p2) = path_of (url p)"
    using save_frame [of m r] by (auto simp: m' with_url_def)
  then have first: "rows (snd (snd (saveGalleryImages m' r'))) = rows r'
       \<and> filter is_add (received (snd (snd (saveGalleryImages m' r')))) = filter is_add (received r')"
    using gen [of m'] save_frame [of m r] by (simp add: m')
  from first gen [OF assms(2-4)] show ?thesis by simp
qed

theorem save_twice_persists_nothing_witness:
  "fst (saveGalleryImages mQuery remoteOne) = Inr ()
   \<and> map imageUrl (rows (snd (snd (saveGalleryImages mQuery remoteOne))))
       = [''https://utfs.io/f/g.png?old=1'', ''https://utfs.io/f/a.png?v=1'']
   \<and> map url (with_url (loadPending (pendingImages mQueryAgain) (mirror mQueryAgain)))
       = [''https://utfs.io/f/a.png?v=2'', ''https://utfs.io/f/g.png'']
   \<and> fst (saveGalleryImages mQueryAgain (snd (snd (saveGalleryImages mQuery remoteOne)))) = Inr ()
   \<and> rows (snd (snd (saveGalleryImages (fst (snd (saveGalleryImages mQuery remoteOne)))
                                         (snd (snd (saveGalleryImages mQuery remoteOne))))))
       = rows (snd (snd (saveGalleryImages mQuery remoteOne)))
   \<and> rows (snd (snd (saveGalleryImages mQueryAgain (snd (snd (saveGalleryImages mQuery remoteOne))))))
       = rows (snd (snd (saveGalleryImages mQuery remoteOne)))
   \<and> filter is_add (received (snd (snd (saveGalleryImages mQueryAgain
                                           (snd (snd (saveGalleryImages mQuery remoteOne)))))))
       = filter is_add (received (snd (snd (saveGalleryImages mQuery remoteOne))))
   \<and> filter is_add (received (snd (snd (saveGalleryImages mQuery remoteOne))))
       = [AddGalleryImage 7 ''https://utfs.io/f/a.png?v=1'' ''Project image 1'' 3]
   \<and> map imageUrl (rows (snd (snd (saveGalleryImages mOtherPath
                                       (snd (snd (saveGalleryImages mQuery remoteOne)))))))
       = [''https://utfs.io/f/g.png?old=1'', ''https://utfs.io/f/a.png?v=1'',
          ''https://utfs.io/f/b.png?v=1'']"
proof -
  have ok: "fst (saveGalleryImages mQuery remoteOne) = Inr ()" by code_simp
  have urls: "map imageUrl (rows (snd (snd (saveGalleryImages mQuery remoteOne))))
       = [''https://utfs.io/f/g.png?old=1'', ''https://utfs.io/f/a.png?v=1'']"
    by code_simp
  have again: "map url (with_url (loadPending (pendingImages mQueryAgain) (mirror mQueryAgain)))
       = [''https://utfs.io/f/a.png?v=2'', ''https://utfs.io/f/g.png'']"
    by code_simp
  have ok2: "fst (saveGalleryImages mQueryAgain (snd (snd (saveGalleryImages mQuery remoteOne))))
       = Inr ()"
    by code_simp
  have adds: "filter is_add (received (snd (snd (saveGalleryImages mQuery remoteOne))))
       = [AddGalleryImage 7 ''https://utfs.io/f/a.png?v=1'' ''Project image 1'' 3]"
    by code_simp
  have other: "map imageUrl (rows (snd (snd (saveGalleryImages mOtherPath
                                       (snd (snd (saveGalleryImages mQuery remoteOne)))))))
       = [''https://utfs.io/f/g.png?old=1'', ''https://utfs.io/f/a.png?v=1'',
          ''https://utfs.io/f/b.png?v=1'']"
    by code_simp
  have same: "\<forall>p2\<in>set (with_url (loadPending (pendingImages mQueryAgain) (mirror mQueryAgain))).
           \<exists>p\<in>set (with_url (loadPending (pendingImages mQuery) (mirror mQuery))).
             path_of (url p2) = path_of (url p)"
    by code_simp
  have pid: "dynamicProjectId mQueryAgain = dynamicProjectId mQuery"
    by (simp add: mQueryAgain_def mQuery_def)
  have new: "isNewProject mQueryAgain = isNewProject mQuery"
    by (simp add: mQueryAgain_def mQuery_def)
  have eq: "saveGalleryImages mQuery remoteOne
      = (Inr (), fst (snd (saveGalleryImages mQuery remoteOne)),
         snd (snd (saveGalleryImages mQuery remoteOne)))"
    using ok by (metis prod.collapse)
  from save_twice_persists_nothing [OF eq same pid new] ok urls again ok2 adds other
  show ?thesis by blast
qed

text \<open>
  C7. The claim has every tracked session committed with all pending URLs and all
  persisted URLs. The commit after the persists takes its pending URLs from the state of
  the component, not from the reconciled list that save has just persisted: when the
  state has lost a pending image that the mirror still holds, save adopts and persists
  the image and then commits the session with a list that does not contain its URL,
  here the empty list. For a project yet to be created the same function commits the
  reconciled list, which does contain it.
\<close>

theorem save_commit_omits_adopted:
  "pendingImages mLost = []
   \<and> mirror mLost = Some (Json [pend ''https://utfs.io/f/p.png'' 1])
   \<and> uploadSessions mLost = [''session_1'']
   \<and> fst (saveGalleryImages mLost remote0) = Inr ()
   \<and> map imageUrl (rows (snd (snd (saveGalleryImages mLost remote0)))) = [''https://utfs.io/f/p.png'']
   \<and> received (snd (snd (saveGalleryImages mLost remote0)))
       = [GetGallery 7,
          AddGalleryImage 7 ''https://utfs.io/f/p.png'' ''Project image 1'' 1,
          CommitUploads ''session_1'' []]
   \<and> received (snd (snd (saveGalleryImages (mLost\<lparr>isNewProject := True\<rparr>) remote0)))
       = [CommitUploads ''session_1'' [''https://utfs.io/f/p.png'']]"
  by code_simp

end
